theory Spec2Isabelle
  imports Main
begin

section \<open>Data model\<close>

text \<open>
  The task graph editor keeps its nodes (tasks) and edges (arrows) as React Flow
  objects. A task is \<^verbatim>\<open>Node<TaskNodeData>\<close>, an arrow is \<^verbatim>\<open>Edge\<close>. The fields
  the code reads or writes are modelled; ids are JavaScript strings. The \<^verbatim>\<open>style\<close> and
  \<^verbatim>\<open>markerEnd\<close> fields are optional in React Flow, hence options. A position is only
  stored and copied, never computed on; a pair of integers stands for it.
  \<open>TypeError\<close> is the one exception the modelled code can throw.
\<close>

datatype error = TypeError

record TaskNodeData =
  label :: string
  completed :: bool

record task_style =
  background :: "string option"
  border :: string

record TaskNode =
  task_id :: string
  data :: TaskNodeData
  position :: "int \<times> int"
  task_style :: "task_style option"

datatype MarkerType = Arrow | ArrowClosed

record marker =
  marker_type :: MarkerType
  color :: "string option"

record arrow_style =
  stroke :: string
  strokeWidth :: nat

record Edge =
  arrow_id :: string
  source :: string
  target :: string
  arrow_type :: "string option"
  arrow_style :: "arrow_style option"
  markerEnd :: "marker option"

section \<open>graphUtils.ts: parent completion\<close>

text \<open>
  \<^verbatim>\<open>tasks.find((n) => n.id === arrow.source)?.data.completed\<close>: the first task of the
  list with that id decides; when there is none the optional chain gives
  \<^verbatim>\<open>undefined\<close>, which is falsy.
\<close>

definition parentCompleted :: "TaskNode list \<Rightarrow> Edge \<Rightarrow> bool" where
  "parentCompleted tasks arrow =
     (case find (\<lambda>n. task_id n = source arrow) tasks of
        None \<Rightarrow> False
      | Some n \<Rightarrow> completed (data n))"

definition areAllParentsCompleted :: "string \<Rightarrow> TaskNode list \<Rightarrow> Edge list \<Rightarrow> bool" where
  "areAllParentsCompleted taskId tasks arrows =
     (let parentArrows = filter (\<lambda>arrow. target arrow = taskId) arrows
      in length parentArrows = 0 \<or> list_all (parentCompleted tasks) parentArrows)"

definition hasIncompleteParent :: "string \<Rightarrow> TaskNode list \<Rightarrow> Edge list \<Rightarrow> bool" where
  "hasIncompleteParent taskId tasks arrows =
     (case find (\<lambda>t. task_id t = taskId) tasks of
        None \<Rightarrow> False
      | Some task \<Rightarrow>
          if \<not> completed (data task) then False
          else list_ex (\<lambda>arrow. \<not> parentCompleted tasks arrow)
                 (filter (\<lambda>arrow. target arrow = taskId) arrows))"

section \<open>EditModal: its own copy of the predicate, and handleSave\<close>

definition EditModal_areAllParentsCompleted ::
    "string \<Rightarrow> TaskNode list \<Rightarrow> Edge list \<Rightarrow> bool" where
  "EditModal_areAllParentsCompleted taskId tasks arrows =
     (let parentArrows = filter (\<lambda>arrow. target arrow = taskId) arrows
      in length parentArrows = 0 \<or>
         list_all (\<lambda>arrow. case find (\<lambda>n. task_id n = source arrow) tasks of
                              None \<Rightarrow> False
                            | Some n \<Rightarrow> completed (data n)) parentArrows)"

text \<open>
  \<^verbatim>\<open>handleSave\<close> computes the value passed to \<^verbatim>\<open>onSave\<close>:
  \<^verbatim>\<open>task.data.completed ? completed : canComplete ? completed : false\<close>, where
  \<^verbatim>\<open>completed\<close> is the state of the check box.
\<close>

definition handleSave_newCompleted :: "TaskNode \<Rightarrow> bool \<Rightarrow> TaskNode list \<Rightarrow> Edge list \<Rightarrow> bool" where
  "handleSave_newCompleted task completed' tasks arrows =
     (let canComplete = EditModal_areAllParentsCompleted (task_id task) tasks arrows
      in if completed (data task) then completed'
         else if canComplete then completed' else False)"

section \<open>FlowContent.updateTask: the completion rule\<close>

text \<open>
  The body of the \<^verbatim>\<open>map\<close> callback of \<^verbatim>\<open>updateTask\<close> for the task whose id matches:
  \<^verbatim>\<open>canComplete = areAllParentsCompleted(t.id, prevTasks, arrows)\<close>,
  \<^verbatim>\<open>newCompleted = t.data.completed ? completed : canComplete ? completed : false\<close>.
\<close>

definition attemptSetCompletion :: "TaskNode \<Rightarrow> bool \<Rightarrow> TaskNode list \<Rightarrow> Edge list \<Rightarrow> bool" where
  "attemptSetCompletion t completed' prevTasks arrows =
     (let canComplete = areAllParentsCompleted (task_id t) prevTasks arrows
      in if completed (data t) then completed'
         else if canComplete then completed' else False)"

definition updateTask_newTasks ::
    "string \<Rightarrow> string \<Rightarrow> bool \<Rightarrow> TaskNode list \<Rightarrow> Edge list \<Rightarrow> TaskNode list" where
  "updateTask_newTasks ident label' completed' prevTasks arrows =
     map (\<lambda>t. if task_id t = ident
               then t\<lparr>data := \<lparr>label = label',
                               completed = attemptSetCompletion t completed' prevTasks arrows\<rparr>\<rparr>
               else t) prevTasks"

section \<open>graphUtils.ts: detectAllCycles\<close>

text \<open>
  \<^verbatim>\<open>graph\<close> is an object literal \<^verbatim>\<open>{}\<close> used as a dictionary from a source id to the
  array of its target ids. It is modelled as an association list in insertion order.
  An object literal inherits from \<^verbatim>\<open>Object.prototype\<close>: reading \<^verbatim>\<open>graph[key]\<close> for a key
  that is not an own property but names a property of \<^verbatim>\<open>Object.prototype\<close> gives the
  inherited value (a function, or the prototype object for \<^verbatim>\<open>__proto__\<close>), which is
  truthy, has no \<^verbatim>\<open>push\<close> and is not iterable.
\<close>

definition objectPrototypeKeys :: "string list" where
  "objectPrototypeKeys =
     [''constructor'', ''__defineGetter__'', ''__defineSetter__'', ''hasOwnProperty'',
      ''__lookupGetter__'', ''__lookupSetter__'', ''isPrototypeOf'', ''propertyIsEnumerable'',
      ''toString'', ''valueOf'', ''__proto__'', ''toLocaleString'']"

type_synonym graph = "(string \<times> string list) list"

datatype property = Undefined | Own "string list" | Inherited

definition graph_get :: "graph \<Rightarrow> string \<Rightarrow> property" where
  "graph_get graph key =
     (case map_of graph key of
        Some targets \<Rightarrow> Own targets
      | None \<Rightarrow> if key \<in> set objectPrototypeKeys then Inherited else Undefined)"

text \<open>
  The body of \<^verbatim>\<open>arrows.forEach\<close>:
  \<^verbatim>\<open>if (!graph[arrow.source]) graph[arrow.source] = []; graph[arrow.source].push(arrow.target)\<close>.
  Calling \<^verbatim>\<open>push\<close> on an inherited value throws a TypeError.
\<close>

definition addArrow :: "graph \<Rightarrow> Edge \<Rightarrow> error + graph" where
  "addArrow graph arrow =
     (case graph_get graph (source arrow) of
        Undefined \<Rightarrow> Inr (graph @ [(source arrow, [target arrow])])
      | Own targets \<Rightarrow>
          Inr (map (\<lambda>(k, v). if k = source arrow then (k, v @ [target arrow]) else (k, v)) graph)
      | Inherited \<Rightarrow> Inl TypeError)"

fun buildGraph :: "Edge list \<Rightarrow> graph \<Rightarrow> error + graph" where
  "buildGraph [] graph = Inr graph"
| "buildGraph (arrow # rest) graph =
     (case addArrow graph arrow of
        Inl e \<Rightarrow> Inl e
      | Inr graph' \<Rightarrow> buildGraph rest graph')"

text \<open>The three sets the traversal mutates.\<close>

record dfs_state =
  visited :: "string set"
  recStack :: "string set"
  cycleArrows :: "string set"

text \<open>
  The branch \<^verbatim>\<open>else if (recStack.has(neighbor))\<close>:
  \<^verbatim>\<open>arrowId = arrows.find((e) => e.source === taskId && e.target === neighbor)?.id\<close>,
  \<^verbatim>\<open>if (arrowId) cycleArrows.add(arrowId)\<close>. The empty string is falsy.
\<close>

definition backEdge :: "Edge list \<Rightarrow> string \<Rightarrow> string \<Rightarrow> dfs_state \<Rightarrow> dfs_state" where
  "backEdge arrows taskId neighbor st =
     (case find (\<lambda>e. source e = taskId \<and> target e = neighbor) arrows of
        None \<Rightarrow> st
      | Some e \<Rightarrow>
          if arrow_id e \<noteq> [] then st\<lparr>cycleArrows := insert (arrow_id e) (cycleArrows st)\<rparr>
          else st)"

text \<open>
  \<^verbatim>\<open>const neighbors = graph[taskId] || []\<close>. The \<^verbatim>\<open>for ... of\<close> loop over an inherited
  value throws a TypeError (it is not iterable). \<^verbatim>\<open>dfs\<close> is the recursive closure,
  \<^verbatim>\<open>forNeighbors\<close> its loop over the neighbours; the state is threaded through both.

  The call stack of the JavaScript engine is not modelled. The closure recurses once per
  task on a path, so on a long enough path the engine throws a RangeError where the model
  still gives a result. The model says what a call returns when it returns; it does not
  say that a call returns.
\<close>

definition neighborsOf :: "graph \<Rightarrow> string \<Rightarrow> property" where
  "neighborsOf graph taskId =
     (case graph_get graph taskId of Undefined \<Rightarrow> Own [] | p \<Rightarrow> p)"

function dfs :: "Edge list \<Rightarrow> graph \<Rightarrow> string \<Rightarrow> dfs_state \<Rightarrow> error + dfs_state"
  and forNeighbors ::
    "Edge list \<Rightarrow> graph \<Rightarrow> string \<Rightarrow> string list \<Rightarrow> dfs_state \<Rightarrow> error + dfs_state"
where
  "dfs arrows graph taskId st =
     (case neighborsOf graph taskId of
        Own neighbors \<Rightarrow>
          (case forNeighbors arrows graph taskId neighbors
                  (st\<lparr>visited := insert taskId (visited st),
                      recStack := insert taskId (recStack st)\<rparr>) of
             Inl e \<Rightarrow> Inl e
           | Inr st' \<Rightarrow> Inr (st'\<lparr>recStack := recStack st' - {taskId}\<rparr>))
      | _ \<Rightarrow> Inl TypeError)"
| "forNeighbors arrows graph taskId [] st = Inr st"
| "forNeighbors arrows graph taskId (neighbor # rest) st =
     (if neighbor \<notin> visited st then
        (case dfs arrows graph neighbor st of
           Inl e \<Rightarrow> Inl e
         | Inr st' \<Rightarrow> forNeighbors arrows graph taskId rest st')
      else if neighbor \<in> recStack st then
        forNeighbors arrows graph taskId rest (backEdge arrows taskId neighbor st)
      else forNeighbors arrows graph taskId rest st)"
  by pat_completeness auto

text \<open>
  Termination: a call of \<^verbatim>\<open>dfs\<close> on an unvisited key of the graph shrinks the set of
  unvisited keys, and the visited set never shrinks.
\<close>

lemma visited_backEdge [simp]: "visited (backEdge arrows u v st) = visited st"
  by (simp add: backEdge_def split: option.splits)

lemma recStack_backEdge [simp]: "recStack (backEdge arrows u v st) = recStack st"
  by (simp add: backEdge_def split: option.splits)

lemma dfs_visited_mono_dom:
  "dfs_forNeighbors_dom (Inl (arrows, graph, taskId, st)) \<Longrightarrow>
     dfs arrows graph taskId st = Inr st' \<Longrightarrow> visited st \<subseteq> visited st'"
  "dfs_forNeighbors_dom (Inr (arrows, graph, taskId, neighbors, st)) \<Longrightarrow>
     forNeighbors arrows graph taskId neighbors st = Inr st' \<Longrightarrow> visited st \<subseteq> visited st'"
proof (induct arbitrary: st' and st' rule: dfs_forNeighbors.pinduct)
  case (1 arrows graph taskId st)
  then show ?case
    by (fastforce simp: dfs.psimps split: property.splits sum.splits)
next
  case (2 arrows graph taskId st)
  then show ?case by (simp add: forNeighbors.psimps)
next
  case (3 arrows graph taskId neighbor rest st)
  show ?case
  proof (cases "neighbor \<notin> visited st")
    case True
    with 3(1,6) obtain b where b: "dfs arrows graph neighbor st = Inr b"
      and r: "forNeighbors arrows graph taskId rest b = Inr st'"
      by (auto simp: forNeighbors.psimps split: sum.splits)
    from 3(2) [OF True b] 3(3) [OF True b r] show ?thesis by blast
  next
    case False
    with 3(1,6) 3(4,5) show ?thesis
      by (cases "neighbor \<in> recStack st") (auto simp: forNeighbors.psimps)
  qed
qed

definition dfs_measure1 ::
  "(Edge list \<times> graph \<times> string \<times> dfs_state) + (Edge list \<times> graph \<times> string \<times> string list \<times> dfs_state) \<Rightarrow> nat" where
  "dfs_measure1 x =
     (case x of
        Inl (arrows, graph, taskId, st) \<Rightarrow> card (fst ` set graph - insert taskId (visited st))
      | Inr (arrows, graph, taskId, neighbors, st) \<Rightarrow> card (fst ` set graph - visited st))"

definition dfs_measure2 ::
  "(Edge list \<times> graph \<times> string \<times> dfs_state) + (Edge list \<times> graph \<times> string \<times> string list \<times> dfs_state) \<Rightarrow> nat" where
  "dfs_measure2 x =
     (case x of
        Inl (arrows, graph, taskId, st) \<Rightarrow>
          (case neighborsOf graph taskId of Own ns \<Rightarrow> 2 * length ns + 1 | _ \<Rightarrow> 0)
      | Inr (arrows, graph, taskId, neighbors, st) \<Rightarrow> 2 * length neighbors)"

lemma neighborsOf_not_key:
  "taskId \<notin> fst ` set graph \<Longrightarrow> neighborsOf graph taskId = Own ns \<Longrightarrow> ns = []"
  by (force simp: neighborsOf_def graph_get_def dest: map_of_SomeD split: option.splits if_splits)

termination dfs
proof (relation "measures [dfs_measure1, dfs_measure2]", goal_cases)
  case 1
  show ?case by simp
next
  case (2 arrows graph taskId st x2)
  then show ?case by (simp add: dfs_measure1_def dfs_measure2_def)
next
  case (3 arrows graph taskId neighbor rest st)
  show ?case
  proof (cases "neighbor \<in> fst ` set graph")
    case True
    with 3 have "fst ` set graph - insert neighbor (visited st) \<subset> fst ` set graph - visited st"
      by auto
    then have "card (fst ` set graph - insert neighbor (visited st)) < card (fst ` set graph - visited st)"
      by (intro psubset_card_mono) auto
    then show ?thesis by (simp add: dfs_measure1_def)
  next
    case False
    then have "fst ` set graph - insert neighbor (visited st) = fst ` set graph - visited st"
      by auto
    moreover from False have "(case neighborsOf graph neighbor of Own ns \<Rightarrow> 2 * length ns + 1 | _ \<Rightarrow> 0) \<le> 1"
      by (auto dest: neighborsOf_not_key split: property.splits)
    ultimately show ?thesis by (simp add: dfs_measure1_def dfs_measure2_def)
  qed
next
  case (4 arrows graph taskId neighbor rest st b)
  from dfs_visited_mono_dom(1) [OF 4(3) 4(2)]
  have "fst ` set graph - visited b \<subseteq> fst ` set graph - visited st" by auto
  then have "card (fst ` set graph - visited b) \<le> card (fst ` set graph - visited st)"
    by (intro card_mono) auto
  then show ?case by (auto simp: dfs_measure1_def dfs_measure2_def)
next
  case 5
  then show ?case by (simp add: dfs_measure1_def dfs_measure2_def)
next
  case 6
  then show ?case by (simp add: dfs_measure1_def dfs_measure2_def)
qed

declare dfs.simps [simp del]

text \<open>
  \<^verbatim>\<open>Object.keys(graph)\<close> lists the own keys: first the array indices (canonical decimal
  strings below \<^verbatim>\<open>2^32 - 1\<close>) in ascending numeric order, then the other strings in
  insertion order.
\<close>

definition isDigit :: "char \<Rightarrow> bool" where
  "isDigit c \<longleftrightarrow> c \<in> set ''0123456789''"

definition decimalValue :: "string \<Rightarrow> nat" where
  "decimalValue s = foldl (\<lambda>n c. 10 * n + (of_char c - 48)) 0 s"

definition isArrayIndex :: "string \<Rightarrow> bool" where
  "isArrayIndex s \<longleftrightarrow>
     s \<noteq> [] \<and> list_all isDigit s \<and> (s = ''0'' \<or> hd s \<noteq> CHR ''0'') \<and>
     decimalValue s < 2 ^ 32 - 1"

definition objectKeys :: "graph \<Rightarrow> string list" where
  "objectKeys graph =
     (let keys = map fst graph
      in sort_key decimalValue (filter isArrayIndex keys) @
         filter (\<lambda>k. \<not> isArrayIndex k) keys)"

text \<open>
  \<^verbatim>\<open>Object.keys(graph).forEach((taskId) => { if (!visited.has(taskId)) dfs(taskId); })\<close>
\<close>

fun forKeys :: "Edge list \<Rightarrow> graph \<Rightarrow> string list \<Rightarrow> dfs_state \<Rightarrow> error + dfs_state" where
  "forKeys arrows graph [] st = Inr st"
| "forKeys arrows graph (taskId # rest) st =
     (if taskId \<notin> visited st then
        (case dfs arrows graph taskId st of
           Inl e \<Rightarrow> Inl e
         | Inr st' \<Rightarrow> forKeys arrows graph rest st')
      else forKeys arrows graph rest st)"

definition detectAllCycles :: "Edge list \<Rightarrow> error + string set" where
  "detectAllCycles arrows =
     (case buildGraph arrows [] of
        Inl e \<Rightarrow> Inl e
      | Inr graph \<Rightarrow>
          (case forKeys arrows graph (objectKeys graph)
                  \<lparr>visited = {}, recStack = {}, cycleArrows = {}\<rparr> of
             Inl e \<Rightarrow> Inl e
           | Inr st \<Rightarrow> Inr (cycleArrows st)))"

section \<open>graphUtils.ts: updateStyles\<close>

text \<open>
  The object spread \<^verbatim>\<open>{...arrow, style: ..., markerEnd: ...}\<close> keeps every other field
  of the arrow; likewise for a task. \<^verbatim>\<open>arrow.id === selectedArrowId\<close> compares with a
  value that may be \<^verbatim>\<open>null\<close> or \<^verbatim>\<open>undefined\<close> (here \<open>None\<close>).
\<close>

definition styleArrow :: "string set \<Rightarrow> string option \<Rightarrow> Edge \<Rightarrow> Edge" where
  "styleArrow cycleArrows' selectedArrowId arrow =
     (let isSelected = (Some (arrow_id arrow) = selectedArrowId);
          isCycled = (arrow_id arrow \<in> cycleArrows');
          strokeColor = (if isCycled then ''red'' else ''#000'')
      in arrow\<lparr>arrow_style := Some \<lparr>stroke = strokeColor,
                                      strokeWidth = (if isSelected then 3 else 1)\<rparr>,
               markerEnd := Some \<lparr>marker_type = Arrow, color = Some strokeColor\<rparr>\<rparr>)"

definition styleTask :: "TaskNode list \<Rightarrow> Edge list \<Rightarrow> string option \<Rightarrow> TaskNode \<Rightarrow> TaskNode" where
  "styleTask tasks arrows selectedTaskId task =
     (let allParentsCompleted = areAllParentsCompleted (task_id task) tasks arrows;
          hasIncomplete = hasIncompleteParent (task_id task) tasks arrows;
          isSelected = (Some (task_id task) = selectedTaskId)
      in task\<lparr>task_style := Some
           \<lparr>background = (if completed (data task) then Some ''#d4d4d4'' else None),
            border = (if isSelected then ''2px solid blue''
                      else if hasIncomplete then ''2px solid red''
                      else if \<not> completed (data task) \<and> allParentsCompleted
                        then ''2px solid green''
                      else ''1px solid black'')\<rparr>\<rparr>)"

record StyledGraph =
  styledTasks :: "TaskNode list"
  styledArrows :: "Edge list"

definition updateStyles ::
    "TaskNode list \<Rightarrow> Edge list \<Rightarrow> string option \<Rightarrow> string option \<Rightarrow> error + StyledGraph" where
  "updateStyles tasks arrows selectedTaskId selectedArrowId =
     (case detectAllCycles arrows of
        Inl e \<Rightarrow> Inl e
      | Inr cycleArrows' \<Rightarrow>
          Inr \<lparr>styledTasks = map (styleTask tasks arrows selectedTaskId) tasks,
               styledArrows = map (styleArrow cycleArrows' selectedArrowId) arrows\<rparr>)"

text \<open>
  The fields \<^verbatim>\<open>updateStyles\<close> derives are \<^verbatim>\<open>style\<close> of a task and \<^verbatim>\<open>style\<close> and
  \<^verbatim>\<open>markerEnd\<close> of an arrow. Erasing them gives the part of the input it reads.
\<close>

definition eraseTaskStyle :: "TaskNode \<Rightarrow> TaskNode" where
  "eraseTaskStyle t = t\<lparr>task_style := None\<rparr>"

definition eraseArrowStyle :: "Edge \<Rightarrow> Edge" where
  "eraseArrowStyle a = a\<lparr>arrow_style := None, markerEnd := None\<rparr>"

section \<open>FlowContent: the editor state\<close>

text \<open>
  The React state of \<^verbatim>\<open>FlowContent\<close> together with the two props it owns through
  \<^verbatim>\<open>setProjects\<close> and \<^verbatim>\<open>setCurrentProjectIndex\<close>. A handler reads the values of the
  render it was created in and queues updates; here a handler is a function from the
  state of that render to the state after its updates, or to the exception it throws.
  \<^verbatim>\<open>lastSavedAt\<close> (the clock), the viewport, \<^verbatim>\<open>localStorage\<close> and the modal flags are
  left out: no handler below reads them.
\<close>

record Project =
  localId :: string
  title :: string
  projectTasks :: "TaskNode list"
  projectArrows :: "Edge list"
  projectTaskIdCounter :: int

record editor =
  projects :: "Project list"
  currentProjectIndex :: int
  tasks :: "TaskNode list"
  arrows :: "Edge list"
  arrowType :: string
  selectedTaskId :: "string option"
  selectedArrowId :: "string option"
  taskIdCounter :: int
  history :: "(TaskNode list \<times> Edge list) list"
  historyIndex :: int

text \<open>The sample project of \<^verbatim>\<open>FlowContent\<close>. Its title and labels are Japanese text in
  the source; ASCII strings stand for them.\<close>

definition sampleProject :: Project where
  "sampleProject =
     \<lparr>localId = ''sample-project'',
      title = ''sample'',
      projectTasks =
        [\<lparr>task_id = ''1'', data = \<lparr>label = ''task1'', completed = False\<rparr>,
          position = (300, 100), task_style = None\<rparr>,
         \<lparr>task_id = ''2'', data = \<lparr>label = ''task2'', completed = False\<rparr>,
          position = (500, 200), task_style = None\<rparr>,
         \<lparr>task_id = ''3'', data = \<lparr>label = ''task3'', completed = False\<rparr>,
          position = (700, 300), task_style = None\<rparr>],
      projectArrows =
        [\<lparr>arrow_id = ''e1'', source = ''1'', target = ''2'', arrow_type = Some ''straight'',
          arrow_style = None, markerEnd = None\<rparr>,
         \<lparr>arrow_id = ''e2'', source = ''2'', target = ''3'', arrow_type = Some ''straight'',
          arrow_style = None, markerEnd = None\<rparr>],
      projectTaskIdCounter = 4\<rparr>"

text \<open>The project that \<^verbatim>\<open>createNewLocalProject\<close> (projectUtils.ts) appends: one task
  with id \<^verbatim>\<open>0\<close>, no arrows, counter 1. Its \<^verbatim>\<open>localId\<close> is a fresh UUID, here a
  parameter; ASCII strings stand for its Japanese title and label.\<close>

definition newProject :: "string \<Rightarrow> Project" where
  "newProject uuid =
     \<lparr>localId = uuid,
      title = ''new project'',
      projectTasks =
        [\<lparr>task_id = ''0'', data = \<lparr>label = ''initial task'', completed = False\<rparr>,
          position = (100, 100), task_style = None\<rparr>],
      projectArrows = [],
      projectTaskIdCounter = 1\<rparr>"

definition effectiveProjects :: "editor \<Rightarrow> Project list" where
  "effectiveProjects st = (if projects st = [] then [sampleProject] else projects st)"

definition effectiveIndex :: "editor \<Rightarrow> int" where
  "effectiveIndex st = (if projects st = [] then 0 else currentProjectIndex st)"

text \<open>JavaScript array primitives: \<^verbatim>\<open>xs[i]\<close> (undefined out of range), \<^verbatim>\<open>xs.slice(0, end)\<close>,
  \<^verbatim>\<open>xs.findIndex(p)\<close> (\<open>-1\<close> when nothing matches) and the template literal of a
  non-negative integer.\<close>

definition at_index :: "'a list \<Rightarrow> int \<Rightarrow> 'a option" where
  "at_index xs i = (if 0 \<le> i \<and> i < int (length xs) then Some (xs ! nat i) else None)"

definition slice0 :: "'a list \<Rightarrow> int \<Rightarrow> 'a list" where
  "slice0 xs end' =
     (if end' < 0 then take (nat (int (length xs) + end')) xs else take (nat end') xs)"

fun findIndex :: "('a \<Rightarrow> bool) \<Rightarrow> 'a list \<Rightarrow> int" where
  "findIndex p [] = - 1"
| "findIndex p (x # xs) =
     (if p x then 0 else (let i = findIndex p xs in if i < 0 then - 1 else i + 1))"

fun decimalDigits :: "nat \<Rightarrow> string" where
  "decimalDigits n =
     (if n < 10 then [''0123456789'' ! n]
      else decimalDigits (n div 10) @ [''0123456789'' ! (n mod 10)])"

declare decimalDigits.simps [simp del]

subsection \<open>saveToLocalStorage, undo, redo\<close>

text \<open>
  \<^verbatim>\<open>saveToLocalStorage\<close> is a \<^verbatim>\<open>useCallback\<close> closure: \<^verbatim>\<open>tasks\<close>, \<^verbatim>\<open>arrows\<close>,
  \<^verbatim>\<open>taskIdCounter\<close>, \<^verbatim>\<open>historyIndex\<close> and the effective project list are those of the
  render (\<open>render\<close>), while the functional update \<^verbatim>\<open>setHistory((prev) => ...)\<close> receives
  the pending history (\<open>pending\<close>), the state with the updates the calling handler has
  queued so far. \<^verbatim>\<open>effectiveProjects[effectiveIndex].localId\<close> throws a TypeError when the
  index names no project; the history is then not touched.
\<close>

definition saveToLocalStorage :: "editor \<Rightarrow> editor \<Rightarrow> error + editor" where
  "saveToLocalStorage render pending =
     (let updatedProjects =
            map (\<lambda>(idx, p). if int idx = effectiveIndex render
                             then p\<lparr>projectTasks := tasks render,
                                    projectArrows := arrows render,
                                    projectTaskIdCounter := taskIdCounter render\<rparr>
                             else p)
                (enumerate 0 (effectiveProjects render))
      in case at_index (effectiveProjects render) (effectiveIndex render) of
           None \<Rightarrow> Inl TypeError
         | Some current \<Rightarrow>
             (let newHistory = slice0 (history pending) (historyIndex render + 1)
                                 @ [(tasks render, arrows render)]
              in Inr (pending\<lparr>projects := updatedProjects,
                              history := newHistory,
                              historyIndex := int (length newHistory) - 1\<rparr>)))"

text \<open>
  \<^verbatim>\<open>const { tasks: prevTasks, arrows: prevArrows } = history[historyIndex - 1]\<close> throws a
  TypeError when the entry is undefined.
\<close>

definition undo :: "editor \<Rightarrow> error + editor" where
  "undo st =
     (if historyIndex st > 0 then
        (case at_index (history st) (historyIndex st - 1) of
           None \<Rightarrow> Inl TypeError
         | Some (prevTasks, prevArrows) \<Rightarrow>
             Inr (st\<lparr>historyIndex := historyIndex st - 1,
                      tasks := prevTasks, arrows := prevArrows\<rparr>))
      else Inr st)"


subsection \<open>onConnect, onEdgeClick, deleteSelected, updateTask\<close>

record Connection =
  connSource :: "string option"
  connTarget :: "string option"

text \<open>
  \<^verbatim>\<open>if (!params.source || !params.target) return\<close>: \<^verbatim>\<open>null\<close> and the empty string are
  falsy. The new arrow gets the id \<^verbatim>\<open>`e${arrows.length + 1}`\<close>.
\<close>

definition onConnect :: "Connection \<Rightarrow> editor \<Rightarrow> error + editor" where
  "onConnect params st =
     (case (connSource params, connTarget params) of
        (Some src, Some tgt) \<Rightarrow>
          if src = [] \<or> tgt = [] then Inr st
          else
            (let isDuplicate = list_ex (\<lambda>arrow. source arrow = src \<and> target arrow = tgt) (arrows st)
             in if isDuplicate then Inr st
                else
                  (let newEdge = \<lparr>arrow_id = ''e'' @ decimalDigits (length (arrows st) + 1),
                                  source = src, target = tgt,
                                  arrow_type = Some (arrowType st),
                                  arrow_style = None,
                                  markerEnd = Some \<lparr>marker_type = ArrowClosed, color = None\<rparr>\<rparr>;
                       newArrows = arrows st @ [newEdge]
                   in case updateStyles (tasks st) newArrows (selectedTaskId st) (selectedArrowId st) of
                        Inl e \<Rightarrow> Inl e
                      | Inr styled \<Rightarrow>
                          saveToLocalStorage st
                            (st\<lparr>tasks := styledTasks styled, arrows := styledArrows styled\<rparr>)))
      | _ \<Rightarrow> Inr st)"

text \<open>
  \<^verbatim>\<open>onEdgeClick\<close> lists only \<^verbatim>\<open>arrows\<close> among its dependencies, so its \<^verbatim>\<open>tasks\<close> are those
  of the render in which \<^verbatim>\<open>arrows\<close> last changed: the parameter \<open>closureTasks\<close>.
\<close>

definition onEdgeClick :: "TaskNode list \<Rightarrow> Edge \<Rightarrow> editor \<Rightarrow> error + editor" where
  "onEdgeClick closureTasks edge st =
     (case updateStyles closureTasks (arrows st) None (Some (arrow_id edge)) of
        Inl e \<Rightarrow> Inl e
      | Inr styled \<Rightarrow>
          Inr (st\<lparr>selectedArrowId := Some (arrow_id edge), selectedTaskId := None,
                   tasks := styledTasks styled, arrows := styledArrows styled\<rparr>))"

definition truthy :: "string option \<Rightarrow> bool" where
  "truthy s \<longleftrightarrow> (case s of None \<Rightarrow> False | Some v \<Rightarrow> v \<noteq> [])"

definition deleteSelected :: "editor \<Rightarrow> error + editor" where
  "deleteSelected st =
     (if truthy (selectedTaskId st) then
        (let updatedTasks = filter (\<lambda>t. Some (task_id t) \<noteq> selectedTaskId st) (tasks st);
             updatedArrows = filter (\<lambda>a. Some (source a) \<noteq> selectedTaskId st \<and>
                                          Some (target a) \<noteq> selectedTaskId st) (arrows st)
         in case updateStyles updatedTasks updatedArrows None (selectedArrowId st) of
              Inl e \<Rightarrow> Inl e
            | Inr styled \<Rightarrow>
                saveToLocalStorage st
                  (st\<lparr>tasks := styledTasks styled, arrows := styledArrows styled,
                      selectedTaskId := None\<rparr>))
      else if truthy (selectedArrowId st) then
        (let updatedArrows = filter (\<lambda>a. Some (arrow_id a) \<noteq> selectedArrowId st) (arrows st)
         in case updateStyles (tasks st) updatedArrows None None of
              Inl e \<Rightarrow> Inl e
            | Inr styled \<Rightarrow>
                saveToLocalStorage st
                  (st\<lparr>tasks := styledTasks styled, arrows := styledArrows styled,
                      selectedArrowId := None\<rparr>))
      else Inr st)"

definition updateTask :: "string \<Rightarrow> string \<Rightarrow> bool \<Rightarrow> editor \<Rightarrow> error + editor" where
  "updateTask ident label' completed' st =
     (let newTasks = updateTask_newTasks ident label' completed' (tasks st) (arrows st)
      in case updateStyles newTasks (arrows st) (selectedTaskId st) (selectedArrowId st) of
           Inl e \<Rightarrow> Inl e
         | Inr styled \<Rightarrow>
             saveToLocalStorage st
               (st\<lparr>tasks := styledTasks styled, arrows := styledArrows styled\<rparr>))"

subsection \<open>handleProjectSwitch\<close>

text \<open>
  The synchronous part saves, then empties the canvas; the \<^verbatim>\<open>setTimeout\<close> callback
  loads the chosen project. Neither calls \<^verbatim>\<open>setHistory\<close> or \<^verbatim>\<open>setHistoryIndex\<close> other
  than through \<^verbatim>\<open>saveToLocalStorage\<close>.
\<close>

definition handleProjectSwitch_sync :: "editor \<Rightarrow> error + editor" where
  "handleProjectSwitch_sync st =
     (case saveToLocalStorage st st of
        Inl e \<Rightarrow> Inl e
      | Inr saved \<Rightarrow> Inr (saved\<lparr>tasks := [], arrows := []\<rparr>))"

definition handleProjectSwitch_timeout :: "Project \<Rightarrow> editor \<Rightarrow> editor \<Rightarrow> error + editor" where
  "handleProjectSwitch_timeout project render pending =
     (let index = findIndex (\<lambda>p. localId p = localId project) (effectiveProjects render);
          unifiedArrows =
            map (\<lambda>arrow. arrow\<lparr>arrow_type := Some (arrowType render),
                                markerEnd := Some \<lparr>marker_type = ArrowClosed, color = None\<rparr>\<rparr>)
                (projectArrows project)
      in case updateStyles (projectTasks project) unifiedArrows
                (selectedTaskId render) (selectedArrowId render) of
           Inl e \<Rightarrow> Inl e
         | Inr styled \<Rightarrow>
             Inr (pending\<lparr>currentProjectIndex := index,
                          tasks := styledTasks styled,
                          arrows := styledArrows styled,
                          taskIdCounter := projectTaskIdCounter project\<rparr>))"

definition handleProjectSwitch :: "Project \<Rightarrow> editor \<Rightarrow> error + editor" where
  "handleProjectSwitch project st =
     (case handleProjectSwitch_sync st of
        Inl e \<Rightarrow> Inl e
      | Inr pending \<Rightarrow> handleProjectSwitch_timeout project st pending)"

subsection \<open>The state at mount, and recording a snapshot\<close>

text \<open>
  The initial values of the \<^verbatim>\<open>useState\<close> hooks:
  \<^verbatim>\<open>effectiveProjects[effectiveIndex]?.tasks || sampleProject.tasks\<close> (an array is truthy,
  the number \<open>0\<close> is falsy), an empty history and \<^verbatim>\<open>historyIndex = -1\<close>.
\<close>

definition initialEditor :: "Project list \<Rightarrow> int \<Rightarrow> editor" where
  "initialEditor projs idx =
     (let eff = (if projs = [] then [sampleProject] else projs);
          effIdx = (if projs = [] then 0 else idx);
          current = at_index eff effIdx
      in \<lparr>projects = projs,
          currentProjectIndex = idx,
          tasks = (case current of Some p \<Rightarrow> projectTasks p | None \<Rightarrow> projectTasks sampleProject),
          arrows = (case current of Some p \<Rightarrow> projectArrows p | None \<Rightarrow> projectArrows sampleProject),
          arrowType = ''straight'',
          selectedTaskId = None,
          selectedArrowId = None,
          taskIdCounter =
            (case current of
               Some p \<Rightarrow> if projectTaskIdCounter p = 0 then projectTaskIdCounter sampleProject
                         else projectTaskIdCounter p
             | None \<Rightarrow> projectTaskIdCounter sampleProject),
          history = [],
          historyIndex = - 1\<rparr>)"

text \<open>
  The history operation \<^verbatim>\<open>record(snapshot)\<close> of the specification is
  \<^verbatim>\<open>saveToLocalStorage\<close> called in a render whose \<^verbatim>\<open>tasks\<close> and \<^verbatim>\<open>arrows\<close> are the
  snapshot. \<open>andThen\<close> sequences two handlers: an exception ends the sequence.
\<close>

definition recordSnapshot :: "TaskNode list \<times> Edge list \<Rightarrow> editor \<Rightarrow> error + editor" where
  "recordSnapshot snapshot st =
     (let render = st\<lparr>tasks := fst snapshot, arrows := snd snapshot\<rparr>
      in saveToLocalStorage render render)"

definition andThen :: "error + 'a \<Rightarrow> ('a \<Rightarrow> error + 'b) \<Rightarrow> error + 'b" where
  "andThen r f = (case r of Inl e \<Rightarrow> Inl e | Inr v \<Rightarrow> f v)"

text \<open>The active project exists: \<^verbatim>\<open>effectiveProjects[effectiveIndex]\<close> is defined, now and
  after the project list has been saved.\<close>

definition activeProjectExists :: "editor \<Rightarrow> bool" where
  "activeProjectExists st \<longleftrightarrow>
     0 \<le> currentProjectIndex st \<and>
     currentProjectIndex st < int (length (effectiveProjects st))"

text \<open>
  A session in which a project switch changes the active project: two projects, the
  sample project active; its canvas is recorded, the canvas without arrows is recorded,
  and the second record is undone.
\<close>

definition twoProjectSession :: "error + editor" where
  "twoProjectSession =
     andThen
       (andThen
          (recordSnapshot (projectTasks sampleProject, projectArrows sampleProject)
             (initialEditor [sampleProject, newProject ''p2''] 0))
          (recordSnapshot (projectTasks sampleProject, [])))
       undo"

section \<open>The dependency graph as a relation\<close>

text \<open>
  The reference notions against which \<^verbatim>\<open>detectAllCycles\<close> is checked: the directed
  edges of an arrow list, whose acyclicity is \<^const>\<open>acyclic\<close> of the library, and the
  targets of the arrows that leave a task, in list order.
\<close>

definition edges :: "Edge list \<Rightarrow> (string \<times> string) set" where
  "edges arrowList = (\<lambda>a. (source a, target a)) ` set arrowList"

definition successors :: "Edge list \<Rightarrow> string \<Rightarrow> string list" where
  "successors arrowList u = map target (filter (\<lambda>a. source a = u) arrowList)"

text \<open>Arrow lists whose ids are truthy, and arrow lists no source of which names a
  property of \<^verbatim>\<open>Object.prototype\<close> (those for which building \<^verbatim>\<open>graph\<close> does not throw).\<close>

definition plainSources :: "Edge list \<Rightarrow> bool" where
  "plainSources arrowList \<longleftrightarrow> (\<forall>a\<in>set arrowList. source a \<notin> set objectPrototypeKeys)"

definition truthyArrowIds :: "Edge list \<Rightarrow> bool" where
  "truthyArrowIds arrowList \<longleftrightarrow> (\<forall>a\<in>set arrowList. arrow_id a \<noteq> [])"

text \<open>The adjacency object built from an arrow list holds, for every source, its
  successors.\<close>

definition represents :: "graph \<Rightarrow> Edge list \<Rightarrow> bool" where
  "represents g arrowList \<longleftrightarrow>
     (\<forall>u. map_of g u = (if u \<in> source ` set arrowList then Some (successors arrowList u)
                         else None))"

text \<open>
  The tasks the traversal has finished (visited and no longer on the recursion stack),
  and what holds of the three sets between any two steps: a recorded arrow witnesses a
  cycle; and while nothing is recorded (ids being truthy), the finished tasks are closed
  under the edges and none of them lies on a cycle.
\<close>

definition finished :: "dfs_state \<Rightarrow> string set" where
  "finished st = visited st - recStack st"

definition dfsInvariant :: "Edge list \<Rightarrow> dfs_state \<Rightarrow> bool" where
  "dfsInvariant arrowList st \<longleftrightarrow>
     (cycleArrows st \<noteq> {} \<longrightarrow> \<not> acyclic (edges arrowList)) \<and>
     (truthyArrowIds arrowList \<and> cycleArrows st = {} \<longrightarrow>
        (\<forall>b\<in>finished st. \<forall>v. (b, v) \<in> edges arrowList \<longrightarrow> v \<in> finished st) \<and>
        (\<forall>b\<in>finished st. (b, b) \<notin> (edges arrowList)\<^sup>+))"

section \<open>Properties of the completion predicates\<close>

lemma EditModal_areAllParentsCompleted_eq:
  "EditModal_areAllParentsCompleted taskId taskList arrowList = areAllParentsCompleted taskId taskList arrowList"
  by (simp add: EditModal_areAllParentsCompleted_def areAllParentsCompleted_def
      parentCompleted_def [abs_def])

lemma areAllParentsCompleted_iff:
  "areAllParentsCompleted t taskList arrowList \<longleftrightarrow>
     (\<forall>a\<in>set arrowList. target a = t \<longrightarrow> parentCompleted taskList a)"
  by (auto simp: areAllParentsCompleted_def Let_def list_all_iff filter_empty_conv)

lemma parentCompleted_iff:
  "parentCompleted taskList a \<longleftrightarrow>
     (\<exists>n. find (\<lambda>n. task_id n = source a) taskList = Some n \<and> completed (data n))"
  by (simp add: parentCompleted_def split: option.splits)

lemma find_None_absent:
  "find (\<lambda>n. task_id n = s) taskList = None \<longleftrightarrow> s \<notin> task_id ` set taskList"
  by (auto simp: find_None_iff)

text \<open>
  C6. \<^verbatim>\<open>areAllParentsCompleted(t, tasks, arrows)\<close>, in \<^verbatim>\<open>graphUtils.ts\<close> and in its copy
  in \<^verbatim>\<open>EditModal\<close>, is true exactly when \<^verbatim>\<open>t\<close> has no incoming arrow, or every incoming
  arrow's source task is found in the task list and is completed. An incoming arrow
  whose source id matches no task of the list makes the result false.
\<close>

theorem areAllParentsCompleted_spec:
  "(areAllParentsCompleted t taskList arrowList \<longleftrightarrow>
      (\<not> (\<exists>a\<in>set arrowList. target a = t)) \<or>
      (\<forall>a\<in>set arrowList. target a = t \<longrightarrow>
         (\<exists>n. find (\<lambda>n. task_id n = source a) taskList = Some n \<and> completed (data n))))
   \<and> (EditModal_areAllParentsCompleted t taskList arrowList = areAllParentsCompleted t taskList arrowList)
   \<and> ((\<exists>a\<in>set arrowList. target a = t \<and> source a \<notin> task_id ` set taskList)
        \<longrightarrow> \<not> areAllParentsCompleted t taskList arrowList)"
proof (intro conjI impI)
  show "areAllParentsCompleted t taskList arrowList \<longleftrightarrow>
      (\<not> (\<exists>a\<in>set arrowList. target a = t)) \<or>
      (\<forall>a\<in>set arrowList. target a = t \<longrightarrow>
         (\<exists>n. find (\<lambda>n. task_id n = source a) taskList = Some n \<and> completed (data n)))"
    unfolding areAllParentsCompleted_iff parentCompleted_iff by blast
  show "EditModal_areAllParentsCompleted t taskList arrowList = areAllParentsCompleted t taskList arrowList"
    by (rule EditModal_areAllParentsCompleted_eq)
next
  assume "\<exists>a\<in>set arrowList. target a = t \<and> source a \<notin> task_id ` set taskList"
  then obtain a where a: "a \<in> set arrowList" "target a = t" "source a \<notin> task_id ` set taskList"
    by blast
  from a(3) have "find (\<lambda>n. task_id n = source a) taskList = None"
    by (force simp: find_None_iff)
  then have "\<not> parentCompleted taskList a"
    by (simp add: parentCompleted_def)
  with a(1,2) show "\<not> areAllParentsCompleted t taskList arrowList"
    unfolding areAllParentsCompleted_iff by blast
qed

theorem areAllParentsCompleted_spec_witness:
  "areAllParentsCompleted ''2''
     [\<lparr>task_id = ''1'', data = \<lparr>label = ''a'', completed = True\<rparr>, position = (0, 0), task_style = None\<rparr>,
      \<lparr>task_id = ''2'', data = \<lparr>label = ''b'', completed = False\<rparr>, position = (0, 0), task_style = None\<rparr>]
     [\<lparr>arrow_id = ''e1'', source = ''1'', target = ''2'', arrow_type = None,
       arrow_style = None, markerEnd = None\<rparr>]
   \<and> \<not> areAllParentsCompleted ''2''
     [\<lparr>task_id = ''2'', data = \<lparr>label = ''b'', completed = False\<rparr>, position = (0, 0), task_style = None\<rparr>]
     [\<lparr>arrow_id = ''e1'', source = ''1'', target = ''2'', arrow_type = None,
       arrow_style = None, markerEnd = None\<rparr>]"
  using areAllParentsCompleted_spec [of "''2''"
     "[\<lparr>task_id = ''1'', data = \<lparr>label = ''a'', completed = True\<rparr>, position = (0, 0), task_style = None\<rparr>,
      \<lparr>task_id = ''2'', data = \<lparr>label = ''b'', completed = False\<rparr>, position = (0, 0), task_style = None\<rparr>]"
     "[\<lparr>arrow_id = ''e1'', source = ''1'', target = ''2'', arrow_type = None,
       arrow_style = None, markerEnd = None\<rparr>]"]
    areAllParentsCompleted_spec [of "''2''"
     "[\<lparr>task_id = ''2'', data = \<lparr>label = ''b'', completed = False\<rparr>, position = (0, 0), task_style = None\<rparr>]"
     "[\<lparr>arrow_id = ''e1'', source = ''1'', target = ''2'', arrow_type = None,
       arrow_style = None, markerEnd = None\<rparr>]"]
  by simp

lemma updateTask_newTasks_completed:
  "map (\<lambda>t. completed (data t)) (updateTask_newTasks ident label' requested taskList arrowList)
     = map (\<lambda>t. if task_id t = ident
                  then attemptSetCompletion t requested taskList arrowList
                  else completed (data t)) taskList"
  by (simp add: updateTask_newTasks_def)

text \<open>
  C1. The completion rule of \<^verbatim>\<open>updateTask\<close> and of \<^verbatim>\<open>EditModal.handleSave\<close>: a task that
  is already completed gets exactly the requested value, true or false; a task that is
  not completed and is asked to become completed gets true when all its parents are
  completed and false otherwise. Both are total boolean expressions built from
  \<^verbatim>\<open>filter\<close>, \<^verbatim>\<open>every\<close>, \<^verbatim>\<open>find\<close> and optional chaining, none of which throws.
\<close>

theorem attemptSetCompletion_rule:
  "(completed (data t) \<longrightarrow>
      attemptSetCompletion t requested taskList arrowList = requested \<and>
      handleSave_newCompleted t requested taskList arrowList = requested)
   \<and> (\<not> completed (data t) \<and> requested \<longrightarrow>
      attemptSetCompletion t requested taskList arrowList
        = areAllParentsCompleted (task_id t) taskList arrowList \<and>
      handleSave_newCompleted t requested taskList arrowList
        = areAllParentsCompleted (task_id t) taskList arrowList)"
  by (simp add: attemptSetCompletion_def handleSave_newCompleted_def
      EditModal_areAllParentsCompleted_eq)

theorem attemptSetCompletion_rule_witness:
  "attemptSetCompletion
     \<lparr>task_id = ''1'', data = \<lparr>label = ''a'', completed = True\<rparr>, position = (0, 0), task_style = None\<rparr>
     False
     [\<lparr>task_id = ''1'', data = \<lparr>label = ''a'', completed = True\<rparr>, position = (0, 0), task_style = None\<rparr>]
     [] = False
   \<and> attemptSetCompletion
     \<lparr>task_id = ''2'', data = \<lparr>label = ''b'', completed = False\<rparr>, position = (0, 0), task_style = None\<rparr>
     True
     [\<lparr>task_id = ''1'', data = \<lparr>label = ''a'', completed = False\<rparr>, position = (0, 0), task_style = None\<rparr>,
      \<lparr>task_id = ''2'', data = \<lparr>label = ''b'', completed = False\<rparr>, position = (0, 0), task_style = None\<rparr>]
     [\<lparr>arrow_id = ''e1'', source = ''1'', target = ''2'', arrow_type = None,
       arrow_style = None, markerEnd = None\<rparr>] = False
   \<and> attemptSetCompletion
     \<lparr>task_id = ''2'', data = \<lparr>label = ''b'', completed = False\<rparr>, position = (0, 0), task_style = None\<rparr>
     True
     [\<lparr>task_id = ''1'', data = \<lparr>label = ''a'', completed = True\<rparr>, position = (0, 0), task_style = None\<rparr>,
      \<lparr>task_id = ''2'', data = \<lparr>label = ''b'', completed = False\<rparr>, position = (0, 0), task_style = None\<rparr>]
     [\<lparr>arrow_id = ''e1'', source = ''1'', target = ''2'', arrow_type = None,
       arrow_style = None, markerEnd = None\<rparr>] = True"
  using attemptSetCompletion_rule [of
     "\<lparr>task_id = ''1'', data = \<lparr>label = ''a'', completed = True\<rparr>, position = (0, 0), task_style = None\<rparr>"
     False
     "[\<lparr>task_id = ''1'', data = \<lparr>label = ''a'', completed = True\<rparr>, position = (0, 0), task_style = None\<rparr>]"
     "[]"]
   attemptSetCompletion_rule [of
     "\<lparr>task_id = ''2'', data = \<lparr>label = ''b'', completed = False\<rparr>, position = (0, 0), task_style = None\<rparr>"
     True
     "[\<lparr>task_id = ''1'', data = \<lparr>label = ''a'', completed = False\<rparr>, position = (0, 0), task_style = None\<rparr>,
      \<lparr>task_id = ''2'', data = \<lparr>label = ''b'', completed = False\<rparr>, position = (0, 0), task_style = None\<rparr>]"
     "[\<lparr>arrow_id = ''e1'', source = ''1'', target = ''2'', arrow_type = None,
       arrow_style = None, markerEnd = None\<rparr>]"]
   attemptSetCompletion_rule [of
     "\<lparr>task_id = ''2'', data = \<lparr>label = ''b'', completed = False\<rparr>, position = (0, 0), task_style = None\<rparr>"
     True
     "[\<lparr>task_id = ''1'', data = \<lparr>label = ''a'', completed = True\<rparr>, position = (0, 0), task_style = None\<rparr>,
      \<lparr>task_id = ''2'', data = \<lparr>label = ''b'', completed = False\<rparr>, position = (0, 0), task_style = None\<rparr>]"
     "[\<lparr>arrow_id = ''e1'', source = ''1'', target = ''2'', arrow_type = None,
       arrow_style = None, markerEnd = None\<rparr>]"]
  by (simp add: areAllParentsCompleted_def parentCompleted_def)
section \<open>Properties of the history\<close>

lemma andThen_Inr [simp]: "andThen (Inr v) f = f v"
  by (simp add: andThen_def)

lemma andThen_Inl [simp]: "andThen (Inl e) f = Inl e"
  by (simp add: andThen_def)

lemma effectiveProjects_nonempty: "effectiveProjects st \<noteq> []"
  by (simp add: effectiveProjects_def)

lemma activeProjectExists_cong:
  "activeProjectExists s \<Longrightarrow> projects s' = projects s \<Longrightarrow>
     currentProjectIndex s' = currentProjectIndex s \<Longrightarrow> activeProjectExists s'"
  by (auto simp: activeProjectExists_def effectiveProjects_def split: if_splits)

lemma activeProjectExists_saved:
  assumes "activeProjectExists s" and "length ps = length (effectiveProjects s)"
    and "currentProjectIndex s' = currentProjectIndex s" and "projects s' = ps"
  shows "activeProjectExists s'"
proof -
  from assms(2) effectiveProjects_nonempty [of s] have "ps \<noteq> []"
    by (cases ps) simp_all
  with assms(4) have "effectiveProjects s' = ps"
    by (simp add: effectiveProjects_def)
  with assms(1,2,3) show ?thesis
    by (simp add: activeProjectExists_def)
qed

lemma effectiveIndex_active:
  "activeProjectExists st \<Longrightarrow> effectiveIndex st = currentProjectIndex st"
  by (auto simp: activeProjectExists_def effectiveIndex_def effectiveProjects_def)

lemma at_index_active:
  "activeProjectExists st \<Longrightarrow> \<exists>p. at_index (effectiveProjects st) (effectiveIndex st) = Some p"
  by (simp add: effectiveIndex_active) (simp add: activeProjectExists_def at_index_def)

lemma saveToLocalStorage_active:
  assumes "activeProjectExists render"
  shows "\<exists>ps. length ps = length (effectiveProjects render) \<and>
           saveToLocalStorage render pending =
             Inr (pending\<lparr>projects := ps,
                   history := slice0 (history pending) (historyIndex render + 1)
                                @ [(tasks render, arrows render)],
                   historyIndex := int (length (slice0 (history pending) (historyIndex render + 1)))\<rparr>)"
proof -
  from at_index_active [OF assms] obtain p where
    "at_index (effectiveProjects render) (effectiveIndex render) = Some p" ..
  then show ?thesis
    by (intro exI [of _ "map (\<lambda>(idx, p). if int idx = effectiveIndex render
                             then p\<lparr>projectTasks := tasks render,
                                    projectArrows := arrows render,
                                    projectTaskIdCounter := taskIdCounter render\<rparr>
                             else p)
                (enumerate 0 (effectiveProjects render))"])
      (simp add: saveToLocalStorage_def Let_def)
qed

lemma recordSnapshot_active:
  assumes "activeProjectExists st"
  shows "\<exists>st'. recordSnapshot snapshot st = Inr st' \<and>
           history st' = slice0 (history st) (historyIndex st + 1) @ [snapshot] \<and>
           historyIndex st' = int (length (slice0 (history st) (historyIndex st + 1))) \<and>
           currentProjectIndex st' = currentProjectIndex st \<and>
           activeProjectExists st'"
proof -
  let ?render = "st\<lparr>tasks := fst snapshot, arrows := snd snapshot\<rparr>"
  have act: "activeProjectExists ?render"
    by (rule activeProjectExists_cong [OF assms]) simp_all
  from saveToLocalStorage_active [OF act, of ?render] obtain ps where
    len: "length ps = length (effectiveProjects ?render)" and
    eq: "saveToLocalStorage ?render ?render =
      Inr (?render\<lparr>projects := ps,
             history := slice0 (history ?render) (historyIndex ?render + 1)
                          @ [(tasks ?render, arrows ?render)],
             historyIndex := int (length (slice0 (history ?render) (historyIndex ?render + 1)))\<rparr>)"
    by blast
  show ?thesis
    unfolding recordSnapshot_def Let_def eq
    by (simp add: activeProjectExists_saved [OF act len])
qed



section \<open>Properties of the editor handlers\<close>

lemma saveToLocalStorage_Inr:
  assumes "saveToLocalStorage render pending = Inr st'"
  shows "tasks st' = tasks pending" and "arrows st' = arrows pending"
    and "selectedTaskId st' = selectedTaskId pending"
    and "selectedArrowId st' = selectedArrowId pending"
    and "history st' = slice0 (history pending) (historyIndex render + 1)
                         @ [(tasks render, arrows render)]"
    and "historyIndex st' = int (length (history st')) - 1"
  using assms
  by (auto simp: saveToLocalStorage_def Let_def split: option.splits)

lemma updateStyles_Inr:
  assumes "updateStyles taskList arrowList selTask selArrow = Inr styled"
  shows "\<exists>cyc. detectAllCycles arrowList = Inr cyc \<and>
           styledTasks styled = map (styleTask taskList arrowList selTask) taskList \<and>
           styledArrows styled = map (styleArrow cyc selArrow) arrowList"
  using assms by (auto simp: updateStyles_def split: sum.splits)

lemma styleTask_fields [simp]:
  "task_id (styleTask taskList arrowList sel t) = task_id t"
  "data (styleTask taskList arrowList sel t) = data t"
  "position (styleTask taskList arrowList sel t) = position t"
  by (simp_all add: styleTask_def Let_def)

lemma styleArrow_fields [simp]:
  "arrow_id (styleArrow cyc sel a) = arrow_id a"
  "source (styleArrow cyc sel a) = source a"
  "target (styleArrow cyc sel a) = target a"
  "arrow_type (styleArrow cyc sel a) = arrow_type a"
  by (simp_all add: styleArrow_def Let_def)

text \<open>
  C8. When an arrow with the same source and target already exists, \<^verbatim>\<open>onConnect\<close>
  returns without queuing any update and without throwing: the whole editor state, and
  so the task list, the arrow list and the history, is unchanged.
\<close>

theorem onConnect_duplicate_noop:
  assumes "\<exists>a\<in>set (arrows st). Some (source a) = connSource params \<and>
                                 Some (target a) = connTarget params"
  shows "onConnect params st = Inr st"
proof -
  from assms obtain a where a: "a \<in> set (arrows st)"
    "connSource params = Some (source a)" "connTarget params = Some (target a)"
    by auto
  from a(1) have "list_ex (\<lambda>arrow. source arrow = source a \<and> target arrow = target a) (arrows st)"
    by (auto simp: list_ex_iff)
  with a(2,3) show ?thesis
    by (simp add: onConnect_def)
qed

theorem onConnect_duplicate_noop_witness:
  "(\<exists>a\<in>set (arrows (initialEditor [] 0)).
      Some (source a) = connSource \<lparr>connSource = Some ''1'', connTarget = Some ''2''\<rparr> \<and>
      Some (target a) = connTarget \<lparr>connSource = Some ''1'', connTarget = Some ''2''\<rparr>)
   \<and> onConnect \<lparr>connSource = Some ''1'', connTarget = Some ''2''\<rparr> (initialEditor [] 0)
       = Inr (initialEditor [] 0)"
proof -
  have h: "\<exists>a\<in>set (arrows (initialEditor [] 0)).
      Some (source a) = connSource \<lparr>connSource = Some ''1'', connTarget = Some ''2''\<rparr> \<and>
      Some (target a) = connTarget \<lparr>connSource = Some ''1'', connTarget = Some ''2''\<rparr>"
    by (simp add: initialEditor_def Let_def at_index_def sampleProject_def)
  from h onConnect_duplicate_noop [OF h] show ?thesis by blast
qed

text \<open>
  C10. Deleting the selected task: the tasks with the selected id are removed and so
  is every arrow whose source or target is that id. All other tasks and arrows are
  kept, in order, with their ids, data, positions, end points and types (their style
  is derived again). No remaining arrow refers to the deleted id, and an end point that
  named a task of the list before still names one after.
\<close>

theorem deleteSelected_task:
  assumes "selectedTaskId st = Some sel" and "sel \<noteq> []" and "deleteSelected st = Inr st'"
  shows "map (\<lambda>t. (task_id t, data t, position t)) (tasks st')
           = map (\<lambda>t. (task_id t, data t, position t))
               (filter (\<lambda>t. task_id t \<noteq> sel) (tasks st))
         \<and> map (\<lambda>a. (arrow_id a, source a, target a, arrow_type a)) (arrows st')
           = map (\<lambda>a. (arrow_id a, source a, target a, arrow_type a))
               (filter (\<lambda>a. source a \<noteq> sel \<and> target a \<noteq> sel) (arrows st))
         \<and> (\<forall>a\<in>set (arrows st'). source a \<noteq> sel \<and> target a \<noteq> sel \<and>
               (source a \<in> task_id ` set (tasks st) \<longrightarrow> source a \<in> task_id ` set (tasks st')) \<and>
               (target a \<in> task_id ` set (tasks st) \<longrightarrow> target a \<in> task_id ` set (tasks st')))"
proof -
  let ?T = "filter (\<lambda>t. task_id t \<noteq> sel) (tasks st)"
  let ?A = "filter (\<lambda>a. source a \<noteq> sel \<and> target a \<noteq> sel) (arrows st)"
  from assms obtain styled where
    us: "updateStyles ?T ?A None (selectedArrowId st) = Inr styled" and
    sv: "saveToLocalStorage st (st\<lparr>tasks := styledTasks styled, arrows := styledArrows styled,
                                   selectedTaskId := None\<rparr>) = Inr st'"
    by (auto simp: deleteSelected_def truthy_def Let_def split: sum.splits)
  from updateStyles_Inr [OF us] obtain cyc where
    st: "styledTasks styled = map (styleTask ?T ?A None) ?T" and
    sa: "styledArrows styled = map (styleArrow cyc (selectedArrowId st)) ?A"
    by blast
  from saveToLocalStorage_Inr(1,2) [OF sv] st sa have
    t': "tasks st' = map (styleTask ?T ?A None) ?T" and
    a': "arrows st' = map (styleArrow cyc (selectedArrowId st)) ?A"
    by simp_all
  have ids: "task_id ` set (tasks st') = task_id ` set (tasks st) - {sel}"
    unfolding t' by (auto simp: image_iff)
  show ?thesis
  proof (intro conjI ballI)
    show "map (\<lambda>t. (task_id t, data t, position t)) (tasks st')
           = map (\<lambda>t. (task_id t, data t, position t)) ?T"
      unfolding t' by simp
    show "map (\<lambda>a. (arrow_id a, source a, target a, arrow_type a)) (arrows st')
           = map (\<lambda>a. (arrow_id a, source a, target a, arrow_type a)) ?A"
      unfolding a' by simp
  next
    fix a assume "a \<in> set (arrows st')"
    then obtain b where b: "b \<in> set (arrows st)" "source b \<noteq> sel" "target b \<noteq> sel"
      "a = styleArrow cyc (selectedArrowId st) b"
      unfolding a' by auto
    then show "source a \<noteq> sel" "target a \<noteq> sel"
      "source a \<in> task_id ` set (tasks st) \<longrightarrow> source a \<in> task_id ` set (tasks st')"
      "target a \<in> task_id ` set (tasks st) \<longrightarrow> target a \<in> task_id ` set (tasks st')"
      unfolding ids by simp_all
  qed
qed

theorem deleteSelected_task_witness:
  "selectedTaskId ((initialEditor [] 0)\<lparr>selectedTaskId := Some ''2''\<rparr>) = Some ''2'' \<and>
   ''2'' \<noteq> [] \<and>
   (\<exists>st'. deleteSelected ((initialEditor [] 0)\<lparr>selectedTaskId := Some ''2''\<rparr>) = Inr st' \<and>
      map task_id (tasks st') = [''1'', ''3''] \<and> arrows st' = [])"
proof -
  let ?st = "(initialEditor [] 0)\<lparr>selectedTaskId := Some ''2''\<rparr>"
  have "\<exists>st'. deleteSelected ?st = Inr st'"
    by (simp add: deleteSelected_def truthy_def initialEditor_def Let_def at_index_def
        sampleProject_def updateStyles_def detectAllCycles_def objectKeys_def
        saveToLocalStorage_def effectiveProjects_def effectiveIndex_def)
  then obtain st' where d: "deleteSelected ?st = Inr st'" ..
  have s: "selectedTaskId ?st = Some ''2''" by simp
  have n: "''2'' \<noteq> []" by simp
  have "map task_id (tasks ?st) = [''1'', ''2'', ''3'']"
    "map (\<lambda>a. (source a, target a)) (arrows ?st) = [(''1'', ''2''), (''2'', ''3'')]"
    by (simp_all add: initialEditor_def Let_def at_index_def sampleProject_def)
  with deleteSelected_task [OF s n d]
  have "map task_id (tasks st') = [''1'', ''3''] \<and> arrows st' = []"
    by (auto simp: initialEditor_def Let_def at_index_def sampleProject_def)
  with d s n show ?thesis by (auto intro: exI [of _ st'])
qed

section \<open>detectAllCycles reads only the id, source and target of an arrow\<close>

lemma map_eq_transfer:
  assumes "map e xs = map e ys" and "\<And>x y. e x = e y \<Longrightarrow> h x = k y"
  shows "map h xs = map k ys"
  using assms(1)
proof (induction xs arbitrary: ys)
  case Nil
  then show ?case by simp
next
  case (Cons x xs)
  then obtain y ys' where "ys = y # ys'" "e x = e y" "map e xs = map e ys'"
    by (cases ys) auto
  with Cons.IH [of ys'] assms(2) [of x y] show ?case by simp
qed

lemma addArrow_fields:
  "source a' = source a \<Longrightarrow> target a' = target a \<Longrightarrow> addArrow g a' = addArrow g a"
  by (auto simp: addArrow_def split: property.splits)

lemma buildGraph_map:
  assumes "\<And>a. source (f a) = source a" and "\<And>a. target (f a) = target a"
  shows "buildGraph (map f arrowList) g = buildGraph arrowList g"
proof (induction arrowList arbitrary: g)
  case Nil
  show ?case by simp
next
  case (Cons a rest)
  have "addArrow g (f a) = addArrow g a"
    by (rule addArrow_fields) (simp_all add: assms)
  with Cons show ?case by (simp split: sum.splits)
qed

lemma find_map_fields:
  assumes "\<And>a. p (f a) = p a"
  shows "find p (map f xs) = map_option f (find p xs)"
  by (induction xs) (simp_all add: assms)

lemma backEdge_map:
  assumes "\<And>a. arrow_id (f a) = arrow_id a" and "\<And>a. source (f a) = source a"
    and "\<And>a. target (f a) = target a"
  shows "backEdge (map f arrowList) u v st = backEdge arrowList u v st"
proof -
  have "find (\<lambda>e. source e = u \<and> target e = v) (map f arrowList)
          = map_option f (find (\<lambda>e. source e = u \<and> target e = v) arrowList)"
    by (rule find_map_fields) (simp add: assms)
  then show ?thesis
    by (simp add: backEdge_def assms split: option.splits)
qed

lemma dfs_map:
  assumes "\<And>a. arrow_id (f a) = arrow_id a" and "\<And>a. source (f a) = source a"
    and "\<And>a. target (f a) = target a"
  shows "dfs (map f arrowList) g u st = dfs arrowList g u st"
    and "forNeighbors (map f arrowList) g u ns st = forNeighbors arrowList g u ns st"
proof (induction arrowList g u st and arrowList g u ns st rule: dfs_forNeighbors.induct)
  case (1 arrowList graph taskId st)
  then show ?case
    by (simp add: dfs.simps [of "map f arrowList"] dfs.simps [of arrowList]
        split: property.splits)
next
  case (2 arrowList graph taskId st)
  show ?case by simp
next
  case (3 arrowList graph taskId neighbor rest st)
  show ?case
  proof (cases "neighbor \<in> visited st")
    case True
    with 3(3,4) show ?thesis
      by (simp add: backEdge_map [OF assms])
  next
    case False
    with 3(1,2) show ?thesis
      by (simp split: sum.splits)
  qed
qed

lemma forKeys_map:
  assumes "\<And>a. arrow_id (f a) = arrow_id a" and "\<And>a. source (f a) = source a"
    and "\<And>a. target (f a) = target a"
  shows "forKeys (map f arrowList) g ks st = forKeys arrowList g ks st"
  by (induction ks arbitrary: st) (simp_all add: dfs_map(1) [OF assms] split: sum.splits)

lemma detectAllCycles_map:
  assumes "\<And>a. arrow_id (f a) = arrow_id a" and "\<And>a. source (f a) = source a"
    and "\<And>a. target (f a) = target a"
  shows "detectAllCycles (map f arrowList) = detectAllCycles arrowList"
  by (simp add: detectAllCycles_def buildGraph_map [of f, OF assms(2,3)] forKeys_map [OF assms]
      split: sum.splits)

lemma detectAllCycles_cong:
  assumes "map (\<lambda>a. (arrow_id a, source a, target a)) arrowList
             = map (\<lambda>a. (arrow_id a, source a, target a)) arrowList'"
  shows "detectAllCycles arrowList = detectAllCycles arrowList'"
proof -
  let ?canon = "\<lambda>a. \<lparr>arrow_id = arrow_id a, source = source a, target = target a,
                      arrow_type = None, arrow_style = None, markerEnd = None\<rparr>"
  have eq: "map ?canon arrowList = map ?canon arrowList'"
    by (rule map_eq_transfer [OF assms]) simp
  have "detectAllCycles arrowList = detectAllCycles (map ?canon arrowList)"
    by (rule detectAllCycles_map [symmetric]) simp_all
  also have "\<dots> = detectAllCycles (map ?canon arrowList')"
    by (simp only: eq)
  also have "\<dots> = detectAllCycles arrowList'"
    by (rule detectAllCycles_map) simp_all
  finally show ?thesis .
qed

section \<open>updateStyles\<close>

lemma eraseTaskStyle_fields [simp]:
  "task_id (eraseTaskStyle t) = task_id t" "data (eraseTaskStyle t) = data t"
  by (simp_all add: eraseTaskStyle_def)

lemma eraseArrowStyle_fields [simp]:
  "arrow_id (eraseArrowStyle a) = arrow_id a" "source (eraseArrowStyle a) = source a"
  "target (eraseArrowStyle a) = target a"
  by (simp_all add: eraseArrowStyle_def)

lemma parentCompleted_map:
  assumes "\<And>t. task_id (f t) = task_id t" and "\<And>t. data (f t) = data t"
    and "source a' = source a"
  shows "parentCompleted (map f taskList) a' = parentCompleted taskList a"
proof -
  have "find (\<lambda>n. task_id n = source a) (map f taskList)
          = map_option f (find (\<lambda>n. task_id n = source a) taskList)"
    by (rule find_map_fields) (simp add: assms)
  then show ?thesis
    by (simp add: parentCompleted_def assms split: option.splits)
qed

lemma areAllParentsCompleted_map:
  assumes "\<And>t. task_id (f t) = task_id t" and "\<And>t. data (f t) = data t"
    and "\<And>a. source (g a) = source a" and "\<And>a. target (g a) = target a"
  shows "areAllParentsCompleted i (map f taskList) (map g arrowList)
           = areAllParentsCompleted i taskList arrowList"
  unfolding areAllParentsCompleted_iff
  by (simp add: assms parentCompleted_map [of f, OF assms(1,2) assms(3)])

lemma hasIncompleteParent_map:
  assumes "\<And>t. task_id (f t) = task_id t" and "\<And>t. data (f t) = data t"
    and "\<And>a. source (g a) = source a" and "\<And>a. target (g a) = target a"
  shows "hasIncompleteParent i (map f taskList) (map g arrowList)
           = hasIncompleteParent i taskList arrowList"
proof -
  have "find (\<lambda>t. task_id t = i) (map f taskList)
          = map_option f (find (\<lambda>t. task_id t = i) taskList)"
    by (rule find_map_fields) (simp add: assms)
  moreover have "list_ex (\<lambda>arrow. \<not> parentCompleted (map f taskList) arrow)
                   (filter (\<lambda>arrow. target arrow = i) (map g arrowList))
               = list_ex (\<lambda>arrow. \<not> parentCompleted taskList arrow)
                   (filter (\<lambda>arrow. target arrow = i) arrowList)"
    by (auto simp: list_ex_iff assms parentCompleted_map [of f, OF assms(1,2) assms(3)])
  ultimately show ?thesis
    by (simp add: hasIncompleteParent_def assms split: option.splits)
qed

lemma styleTask_erase:
  assumes "eraseTaskStyle t = eraseTaskStyle t'"
    and "\<And>i. areAllParentsCompleted i taskList arrowList = areAllParentsCompleted i taskList' arrowList'"
    and "\<And>i. hasIncompleteParent i taskList arrowList = hasIncompleteParent i taskList' arrowList'"
  shows "styleTask taskList arrowList sel t = styleTask taskList' arrowList' sel t'"
proof -
  have "task_id (eraseTaskStyle t) = task_id (eraseTaskStyle t')"
    "data (eraseTaskStyle t) = data (eraseTaskStyle t')"
    "position (eraseTaskStyle t) = position (eraseTaskStyle t')"
    by (simp_all only: assms(1))
  then have eq: "task_id t = task_id t'" "data t = data t'" "position t = position t'"
    by (simp_all add: eraseTaskStyle_def)
  show ?thesis
    by (rule TaskNode.equality) (simp_all add: styleTask_def Let_def eq assms(2,3))
qed

lemma styleArrow_erase:
  assumes "eraseArrowStyle a = eraseArrowStyle a'"
  shows "styleArrow cyc sel a = styleArrow cyc sel a'"
proof -
  have "arrow_id (eraseArrowStyle a) = arrow_id (eraseArrowStyle a')"
    "source (eraseArrowStyle a) = source (eraseArrowStyle a')"
    "target (eraseArrowStyle a) = target (eraseArrowStyle a')"
    "arrow_type (eraseArrowStyle a) = arrow_type (eraseArrowStyle a')"
    by (simp_all only: assms)
  then have eq: "arrow_id a = arrow_id a'" "source a = source a'" "target a = target a'"
    "arrow_type a = arrow_type a'"
    by (simp_all add: eraseArrowStyle_def)
  show ?thesis
    by (rule Edge.equality) (simp_all add: styleArrow_def Let_def eq)
qed

lemma updateStyles_erase:
  assumes T: "map eraseTaskStyle taskList' = map eraseTaskStyle taskList"
    and A: "map eraseArrowStyle arrowList' = map eraseArrowStyle arrowList"
  shows "updateStyles taskList' arrowList' selTask selArrow
           = updateStyles taskList arrowList selTask selArrow"
proof -
  have "detectAllCycles arrowList' = detectAllCycles (map eraseArrowStyle arrowList')"
    by (simp add: detectAllCycles_map)
  also have "\<dots> = detectAllCycles (map eraseArrowStyle arrowList)"
    by (simp only: A)
  also have "\<dots> = detectAllCycles arrowList"
    by (simp add: detectAllCycles_map)
  finally have cyc: "detectAllCycles arrowList' = detectAllCycles arrowList" .
  have all: "areAllParentsCompleted i taskList' arrowList'
               = areAllParentsCompleted i taskList arrowList" for i
  proof -
    have "areAllParentsCompleted i taskList' arrowList'
            = areAllParentsCompleted i (map eraseTaskStyle taskList') (map eraseArrowStyle arrowList')"
      by (simp add: areAllParentsCompleted_map)
    also have "\<dots> = areAllParentsCompleted i (map eraseTaskStyle taskList) (map eraseArrowStyle arrowList)"
      by (simp only: T A)
    also have "\<dots> = areAllParentsCompleted i taskList arrowList"
      by (simp add: areAllParentsCompleted_map)
    finally show ?thesis .
  qed
  have inc: "hasIncompleteParent i taskList' arrowList'
               = hasIncompleteParent i taskList arrowList" for i
  proof -
    have "hasIncompleteParent i taskList' arrowList'
            = hasIncompleteParent i (map eraseTaskStyle taskList') (map eraseArrowStyle arrowList')"
      by (simp add: hasIncompleteParent_map)
    also have "\<dots> = hasIncompleteParent i (map eraseTaskStyle taskList) (map eraseArrowStyle arrowList)"
      by (simp only: T A)
    also have "\<dots> = hasIncompleteParent i taskList arrowList"
      by (simp add: hasIncompleteParent_map)
    finally show ?thesis .
  qed
  have tasks_eq: "map (styleTask taskList' arrowList' selTask) taskList'
                    = map (styleTask taskList arrowList selTask) taskList"
    by (rule map_eq_transfer [OF T]) (rule styleTask_erase, simp_all add: all inc)
  have arrows_eq: "map (styleArrow c selArrow) arrowList' = map (styleArrow c selArrow) arrowList" for c
    by (rule map_eq_transfer [OF A]) (rule styleArrow_erase)
  show ?thesis
    by (simp add: updateStyles_def cyc tasks_eq arrows_eq split: sum.splits)
qed

lemma eraseTaskStyle_styleTask [simp]:
  "eraseTaskStyle (styleTask taskList arrowList sel t) = eraseTaskStyle t"
  by (simp add: eraseTaskStyle_def styleTask_def Let_def)

lemma eraseArrowStyle_styleArrow [simp]:
  "eraseArrowStyle (styleArrow cyc sel a) = eraseArrowStyle a"
  by (simp add: eraseArrowStyle_def styleArrow_def Let_def)

text \<open>
  C7. \<^verbatim>\<open>updateStyles\<close> is idempotent: applied to its own output with the same
  selection it returns that output again, so every derived style field is identical.
  It is deterministic: the model is a function of the four arguments, as the source
  reads no clock, random source or mutable global; and the output does not depend on
  the derived fields of the input either, so two inputs that differ only in them give
  the same output (an exception included).
\<close>

theorem updateStyles_idempotent:
  "(updateStyles taskList arrowList selTask selArrow = Inr styled \<longrightarrow>
      updateStyles (styledTasks styled) (styledArrows styled) selTask selArrow = Inr styled)
   \<and> (map eraseTaskStyle taskList' = map eraseTaskStyle taskList \<and>
       map eraseArrowStyle arrowList' = map eraseArrowStyle arrowList \<longrightarrow>
      updateStyles taskList' arrowList' selTask selArrow
        = updateStyles taskList arrowList selTask selArrow)"
proof (intro conjI impI)
  assume us: "updateStyles taskList arrowList selTask selArrow = Inr styled"
  from updateStyles_Inr [OF us] obtain cyc where
    "styledTasks styled = map (styleTask taskList arrowList selTask) taskList"
    "styledArrows styled = map (styleArrow cyc selArrow) arrowList"
    by blast
  then have "map eraseTaskStyle (styledTasks styled) = map eraseTaskStyle taskList"
    "map eraseArrowStyle (styledArrows styled) = map eraseArrowStyle arrowList"
    by simp_all
  from updateStyles_erase [OF this] us
  show "updateStyles (styledTasks styled) (styledArrows styled) selTask selArrow = Inr styled"
    by simp
next
  assume "map eraseTaskStyle taskList' = map eraseTaskStyle taskList \<and>
       map eraseArrowStyle arrowList' = map eraseArrowStyle arrowList"
  then show "updateStyles taskList' arrowList' selTask selArrow
        = updateStyles taskList arrowList selTask selArrow"
    by (elim conjE) (rule updateStyles_erase)
qed

lemmas detectAllCycles_eval =
  detectAllCycles_def addArrow_def graph_get_def objectPrototypeKeys_def objectKeys_def
  isArrayIndex_def isDigit_def decimalValue_def dfs.simps neighborsOf_def backEdge_def

lemma detectAllCycles_sample: "detectAllCycles (projectArrows sampleProject) = Inr {}"
  by (simp add: sampleProject_def detectAllCycles_eval)

lemma updateStyles_returns:
  "detectAllCycles arrowList = Inr cyc \<Longrightarrow>
     updateStyles taskList arrowList selTask selArrow =
       Inr \<lparr>styledTasks = map (styleTask taskList arrowList selTask) taskList,
            styledArrows = map (styleArrow cyc selArrow) arrowList\<rparr>"
  by (simp add: updateStyles_def)

theorem updateStyles_idempotent_witness:
  "updateStyles (projectTasks sampleProject) (projectArrows sampleProject) None None
     = Inr \<lparr>styledTasks = map (styleTask (projectTasks sampleProject)
                                  (projectArrows sampleProject) None)
                             (projectTasks sampleProject),
            styledArrows = map (styleArrow {} None) (projectArrows sampleProject)\<rparr>
   \<and> updateStyles
        (map (styleTask (projectTasks sampleProject) (projectArrows sampleProject) None)
           (projectTasks sampleProject))
        (map (styleArrow {} None) (projectArrows sampleProject)) None None
     = Inr \<lparr>styledTasks = map (styleTask (projectTasks sampleProject)
                                  (projectArrows sampleProject) None)
                             (projectTasks sampleProject),
            styledArrows = map (styleArrow {} None) (projectArrows sampleProject)\<rparr>
   \<and> updateStyles
        (map (styleTask (projectTasks sampleProject) (projectArrows sampleProject) (Some ''1''))
           (projectTasks sampleProject))
        (map (styleArrow {''e1''} (Some ''e2'')) (projectArrows sampleProject)) None None
     = updateStyles (projectTasks sampleProject) (projectArrows sampleProject) None None"
proof -
  let ?T = "projectTasks sampleProject" and ?A = "projectArrows sampleProject"
  let ?R = "\<lparr>styledTasks = map (styleTask ?T ?A None) ?T,
             styledArrows = map (styleArrow {} None) ?A\<rparr>"
  have u: "updateStyles ?T ?A None None = Inr ?R"
    by (rule updateStyles_returns [OF detectAllCycles_sample])
  have e: "map eraseTaskStyle (map (styleTask ?T ?A (Some ''1'')) ?T) = map eraseTaskStyle ?T
     \<and> map eraseArrowStyle (map (styleArrow {''e1''} (Some ''e2'')) ?A) = map eraseArrowStyle ?A"
    by simp
  from updateStyles_idempotent [of ?T ?A None None ?R] u
  have "updateStyles (styledTasks ?R) (styledArrows ?R) None None = Inr ?R"
    by blast
  moreover from updateStyles_idempotent [of ?T ?A None None ?R
      "map (styleTask ?T ?A (Some ''1'')) ?T" "map (styleArrow {''e1''} (Some ''e2'')) ?A"] e
  have "updateStyles (map (styleTask ?T ?A (Some ''1'')) ?T)
          (map (styleArrow {''e1''} (Some ''e2'')) ?A) None None
        = updateStyles ?T ?A None None"
    by blast
  ultimately show ?thesis using u by simp
qed

section \<open>Project switch and the history\<close>

lemma handleProjectSwitch_timeout_history:
  assumes "handleProjectSwitch_timeout project render pending = Inr st'"
  shows "history st' = history pending" and "historyIndex st' = historyIndex pending"
  using assms
  by (auto simp: handleProjectSwitch_timeout_def Let_def split: sum.splits)

lemma handleProjectSwitch_appends:
  assumes "handleProjectSwitch project st = Inr st'"
  shows "history st' = slice0 (history st) (historyIndex st + 1) @ [(tasks st, arrows st)]
         \<and> historyIndex st' = int (length (history st')) - 1
         \<and> history st' \<noteq> []"
proof -
  from assms obtain saved where
    sv: "saveToLocalStorage st st = Inr saved" and
    tm: "handleProjectSwitch_timeout project st (saved\<lparr>tasks := [], arrows := []\<rparr>) = Inr st'"
    by (auto simp: handleProjectSwitch_def handleProjectSwitch_sync_def split: sum.splits)
  from handleProjectSwitch_timeout_history [OF tm] saveToLocalStorage_Inr(5,6) [OF sv]
  show ?thesis by simp
qed

lemma initialEditor_sample:
  "projects (initialEditor [] 0) = []" "currentProjectIndex (initialEditor [] 0) = 0"
  "tasks (initialEditor [] 0) = projectTasks sampleProject"
  "arrows (initialEditor [] 0) = projectArrows sampleProject"
  "selectedTaskId (initialEditor [] 0) = None" "selectedArrowId (initialEditor [] 0) = None"
  "history (initialEditor [] 0) = []" "historyIndex (initialEditor [] 0) = - 1"
  "arrowType (initialEditor [] 0) = ''straight''"
  by (simp_all add: initialEditor_def Let_def at_index_def)

lemma initialEditor_active: "activeProjectExists (initialEditor [] 0)"
  by (simp add: activeProjectExists_def effectiveProjects_def initialEditor_sample)

lemma handleProjectSwitch_returns:
  assumes "activeProjectExists st" and "detectAllCycles (projectArrows project) = Inr cyc"
  shows "\<exists>st'. handleProjectSwitch project st = Inr st'"
proof -
  from saveToLocalStorage_active [OF assms(1), of st] obtain saved where
    sv: "saveToLocalStorage st st = Inr saved" by blast
  let ?unified = "map (\<lambda>arrow. arrow\<lparr>arrow_type := Some (arrowType st),
                      markerEnd := Some \<lparr>marker_type = ArrowClosed, color = None\<rparr>\<rparr>)
                    (projectArrows project)"
  have "detectAllCycles ?unified = Inr cyc"
    using assms(2) by (simp add: detectAllCycles_map)
  from updateStyles_returns [OF this] sv show ?thesis
    by (simp add: handleProjectSwitch_def handleProjectSwitch_sync_def
        handleProjectSwitch_timeout_def Let_def)
qed

lemma localId_updated:
  assumes "\<And>p. localId (f p) = localId p"
  shows "map (localId \<circ> (\<lambda>(idx, p). if c idx then f p else p)) (enumerate n xs)
           = map localId xs"
  by (induction xs arbitrary: n) (simp_all add: assms)

lemma saveToLocalStorage_projects:
  assumes "saveToLocalStorage render pending = Inr st'"
  shows "map localId (projects st') = map localId (effectiveProjects render)"
    and "currentProjectIndex st' = currentProjectIndex pending"
  using assms
  by (auto simp: saveToLocalStorage_def Let_def localId_updated split: option.splits)

lemma effectiveProjects_saved:
  assumes "map localId (projects st') = map localId (effectiveProjects st)"
  shows "map localId (effectiveProjects st') = map localId (effectiveProjects st)"
proof -
  from assms effectiveProjects_nonempty [of st] have "projects st' \<noteq> []"
    by (cases "projects st'") auto
  with assms show ?thesis
    by (simp add: effectiveProjects_def [of st'])
qed

lemma recordSnapshot_state:
  assumes "activeProjectExists st"
  shows "\<exists>st'. recordSnapshot snapshot st = Inr st' \<and>
           history st' = slice0 (history st) (historyIndex st + 1) @ [snapshot] \<and>
           historyIndex st' = int (length (slice0 (history st) (historyIndex st + 1))) \<and>
           currentProjectIndex st' = currentProjectIndex st \<and>
           activeProjectExists st' \<and>
           map localId (effectiveProjects st') = map localId (effectiveProjects st)"
proof -
  from recordSnapshot_active [OF assms, of snapshot] obtain st' where
    r: "recordSnapshot snapshot st = Inr st'"
      "history st' = slice0 (history st) (historyIndex st + 1) @ [snapshot]"
      "historyIndex st' = int (length (slice0 (history st) (historyIndex st + 1)))"
      "currentProjectIndex st' = currentProjectIndex st" "activeProjectExists st'"
    by blast
  let ?render = "st\<lparr>tasks := fst snapshot, arrows := snd snapshot\<rparr>"
  from r(1) have "saveToLocalStorage ?render ?render = Inr st'"
    by (simp add: recordSnapshot_def Let_def)
  from saveToLocalStorage_projects(1) [OF this]
  have "map localId (projects st') = map localId (effectiveProjects st)"
    by (simp add: effectiveProjects_def)
  from effectiveProjects_saved [OF this] r show ?thesis by blast
qed

lemma findIndex_map: "findIndex (\<lambda>p. f p = x) ps = findIndex (\<lambda>i. i = x) (map f ps)"
  by (induction ps) (simp_all add: Let_def)

lemma handleProjectSwitch_timeout_index:
  assumes "handleProjectSwitch_timeout project render pending = Inr st'"
  shows "currentProjectIndex st' =
           findIndex (\<lambda>p. localId p = localId project) (effectiveProjects render)"
  using assms
  by (auto simp: handleProjectSwitch_timeout_def Let_def split: sum.splits)

lemma handleProjectSwitch_index:
  assumes "handleProjectSwitch project st = Inr st'"
  shows "currentProjectIndex st' =
           findIndex (\<lambda>p. localId p = localId project) (effectiveProjects st)"
proof -
  from assms obtain pending where
    "handleProjectSwitch_timeout project st pending = Inr st'"
    by (auto simp: handleProjectSwitch_def split: sum.splits)
  then show ?thesis by (rule handleProjectSwitch_timeout_index)
qed

lemma twoProjectSession_state:
  "\<exists>st. twoProjectSession = Inr st \<and> currentProjectIndex st = 0 \<and>
      history st = [(projectTasks sampleProject, projectArrows sampleProject),
                    (projectTasks sampleProject, [])] \<and>
      historyIndex st = 0 \<and>
      tasks st = projectTasks sampleProject \<and> arrows st = projectArrows sampleProject \<and>
      activeProjectExists st \<and>
      map localId (effectiveProjects st) = [''sample-project'', ''p2'']"
proof -
  let ?st0 = "initialEditor [sampleProject, newProject ''p2''] 0"
  let ?A = "(projectTasks sampleProject, projectArrows sampleProject)"
  let ?B = "(projectTasks sampleProject, [] :: Edge list)"
  have st0: "history ?st0 = []" "historyIndex ?st0 = - 1" "currentProjectIndex ?st0 = 0"
    "effectiveProjects ?st0 = [sampleProject, newProject ''p2'']"
    by (simp_all add: initialEditor_def Let_def effectiveProjects_def)
  have ids: "map localId [sampleProject, newProject ''p2''] = [''sample-project'', ''p2'']"
    by (simp add: sampleProject_def newProject_def)
  have act0: "activeProjectExists ?st0"
    by (simp add: activeProjectExists_def st0)
  from recordSnapshot_state [OF act0, of ?A] obtain s1 where
    r1: "recordSnapshot ?A ?st0 = Inr s1"
      "history s1 = slice0 (history ?st0) (historyIndex ?st0 + 1) @ [?A]"
      "historyIndex s1 = int (length (slice0 (history ?st0) (historyIndex ?st0 + 1)))"
      "currentProjectIndex s1 = currentProjectIndex ?st0" "activeProjectExists s1"
      "map localId (effectiveProjects s1) = map localId (effectiveProjects ?st0)"
    by blast
  have s1: "history s1 = [?A]" "historyIndex s1 = 0" "currentProjectIndex s1 = 0"
    "map localId (effectiveProjects s1) = [''sample-project'', ''p2'']"
    by (simp_all only: r1 st0 ids) (simp_all add: slice0_def)
  from recordSnapshot_state [OF r1(5), of ?B] obtain s2 where
    r2: "recordSnapshot ?B s1 = Inr s2"
      "history s2 = slice0 (history s1) (historyIndex s1 + 1) @ [?B]"
      "historyIndex s2 = int (length (slice0 (history s1) (historyIndex s1 + 1)))"
      "currentProjectIndex s2 = currentProjectIndex s1" "activeProjectExists s2"
      "map localId (effectiveProjects s2) = map localId (effectiveProjects s1)"
    by blast
  have s2: "history s2 = [?A, ?B]" "historyIndex s2 = 1" "currentProjectIndex s2 = 0"
    "map localId (effectiveProjects s2) = [''sample-project'', ''p2'']"
    by (simp_all only: r2 s1) (simp_all add: slice0_def)
  define s3 where "s3 = s2\<lparr>historyIndex := 0, tasks := fst ?A, arrows := snd ?A\<rparr>"
  have u: "undo s2 = Inr s3"
    by (simp add: undo_def at_index_def s3_def s2(1,2))
  have two: "twoProjectSession = Inr s3"
    by (simp add: twoProjectSession_def r1(1) r2(1) u)
  have act3: "activeProjectExists s3"
    by (rule activeProjectExists_cong [OF r2(5)]) (simp_all add: s3_def)
  have "effectiveProjects s3 = effectiveProjects s2"
    by (simp add: effectiveProjects_def s3_def)
  then have ids3: "map localId (effectiveProjects s3) = [''sample-project'', ''p2'']"
    by (simp only: s2(4))
  have f3: "currentProjectIndex s3 = 0" "history s3 = [?A, ?B]" "historyIndex s3 = 0"
    "tasks s3 = projectTasks sampleProject" "arrows s3 = projectArrows sampleProject"
    by (simp_all add: s3_def s2(1,3))
  show ?thesis
    by (rule exI [of _ s3]) (simp only: two f3 act3 ids3 simp_thms)
qed

lemma twoProjectSession_switch:
  assumes "activeProjectExists st"
    and "map localId (effectiveProjects st) = [''sample-project'', ''p2'']"
  shows "\<exists>st'. handleProjectSwitch (newProject ''p2'') st = Inr st' \<and>
           currentProjectIndex st' = 1"
proof -
  have "detectAllCycles (projectArrows (newProject ''p2'')) = Inr {}"
    by (simp add: newProject_def detectAllCycles_def objectKeys_def)
  from handleProjectSwitch_returns [OF assms(1) this] obtain st' where
    sw: "handleProjectSwitch (newProject ''p2'') st = Inr st'" ..
  have "findIndex (\<lambda>p. localId p = localId (newProject ''p2'')) (effectiveProjects st)
          = findIndex (\<lambda>i. i = localId (newProject ''p2'')) (map localId (effectiveProjects st))"
    by (rule findIndex_map)
  also have "\<dots> = 1"
    by (simp add: assms(2) newProject_def)
  finally have "currentProjectIndex st' = 1"
    by (simp only: handleProjectSwitch_index [OF sw])
  with sw show ?thesis
    by (intro exI [of _ st'] conjI)
qed

text \<open>
  C4. \<^verbatim>\<open>handleProjectSwitch\<close> does not clear the history. It calls
  \<^verbatim>\<open>saveToLocalStorage\<close>, which drops the entries after the cursor and appends the
  canvas of the project being left; nothing else writes the history or the cursor. So
  after a switch that returns, the history is never empty and the cursor is on the
  appended entry.
\<close>

theorem handleProjectSwitch_history:
  assumes "handleProjectSwitch project st = Inr st'"
  shows "history st' = slice0 (history st) (historyIndex st + 1) @ [(tasks st, arrows st)]
         \<and> historyIndex st' = int (length (history st')) - 1
         \<and> history st' \<noteq> []"
  using assms by (rule handleProjectSwitch_appends)

theorem handleProjectSwitch_history_witness:
  "\<exists>st st'. twoProjectSession = Inr st \<and>
      currentProjectIndex st = 0 \<and>
      history st = [(projectTasks sampleProject, projectArrows sampleProject),
                    (projectTasks sampleProject, [])] \<and>
      historyIndex st = 0 \<and>
      handleProjectSwitch (newProject ''p2'') st = Inr st' \<and>
      currentProjectIndex st' = 1 \<and>
      history st' = [(projectTasks sampleProject, projectArrows sampleProject),
                     (projectTasks sampleProject, projectArrows sampleProject)] \<and>
      historyIndex st' = 1"
proof -
  from twoProjectSession_state obtain st where
    all: "twoProjectSession = Inr st \<and> currentProjectIndex st = 0 \<and>
      history st = [(projectTasks sampleProject, projectArrows sampleProject),
                    (projectTasks sampleProject, [])] \<and>
      historyIndex st = 0 \<and>
      tasks st = projectTasks sampleProject \<and> arrows st = projectArrows sampleProject \<and>
      activeProjectExists st \<and>
      map localId (effectiveProjects st) = [''sample-project'', ''p2'']" ..
  then have
    st: "twoProjectSession = Inr st" "currentProjectIndex st = 0"
      "history st = [(projectTasks sampleProject, projectArrows sampleProject),
                     (projectTasks sampleProject, [])]"
      "historyIndex st = 0" "tasks st = projectTasks sampleProject"
      "arrows st = projectArrows sampleProject" and
    rest: "activeProjectExists st"
      "map localId (effectiveProjects st) = [''sample-project'', ''p2'']"
    by simp_all
  from twoProjectSession_switch [OF rest] obtain st' where
    "handleProjectSwitch (newProject ''p2'') st = Inr st' \<and> currentProjectIndex st' = 1" ..
  then have
    sw: "handleProjectSwitch (newProject ''p2'') st = Inr st'" "currentProjectIndex st' = 1"
    by simp_all
  from handleProjectSwitch_history [OF sw(1)] st(3-6)
  have "history st' = [(projectTasks sampleProject, projectArrows sampleProject),
                       (projectTasks sampleProject, projectArrows sampleProject)]"
    "historyIndex st' = 1"
    by (simp_all add: slice0_def)
  with st(1-4) sw show ?thesis
    by (intro exI [of _ st] exI [of _ st'] conjI)
qed

text \<open>
  The specification asks for a reset on project switch; the code differs. A session
  with two projects, the sample project active: two snapshots are recorded and one is
  undone, so the history holds two entries with the cursor on the first. Switching to
  the second project changes the active project from index 0 to index 1; afterwards the
  history still holds the first entry, the undone entry is replaced by the canvas that
  was left, and the cursor is on that entry.
\<close>

theorem handleProjectSwitch_keeps_history:
  "map_sum id currentProjectIndex twoProjectSession = Inr 0
   \<and> map_sum id history twoProjectSession
       = Inr [(projectTasks sampleProject, projectArrows sampleProject),
              (projectTasks sampleProject, [])]
   \<and> map_sum id historyIndex twoProjectSession = Inr 0
   \<and> map_sum id currentProjectIndex
         (andThen twoProjectSession (handleProjectSwitch (newProject ''p2''))) = Inr 1
   \<and> map_sum id history
         (andThen twoProjectSession (handleProjectSwitch (newProject ''p2'')))
       = Inr [(projectTasks sampleProject, projectArrows sampleProject),
              (projectTasks sampleProject, projectArrows sampleProject)]
   \<and> map_sum id historyIndex
         (andThen twoProjectSession (handleProjectSwitch (newProject ''p2''))) = Inr 1"
proof -
  from twoProjectSession_state obtain st where
    all: "twoProjectSession = Inr st \<and> currentProjectIndex st = 0 \<and>
      history st = [(projectTasks sampleProject, projectArrows sampleProject),
                    (projectTasks sampleProject, [])] \<and>
      historyIndex st = 0 \<and>
      tasks st = projectTasks sampleProject \<and> arrows st = projectArrows sampleProject \<and>
      activeProjectExists st \<and>
      map localId (effectiveProjects st) = [''sample-project'', ''p2'']" ..
  then have
    st: "twoProjectSession = Inr st" "currentProjectIndex st = 0"
      "history st = [(projectTasks sampleProject, projectArrows sampleProject),
                     (projectTasks sampleProject, [])]"
      "historyIndex st = 0" "tasks st = projectTasks sampleProject"
      "arrows st = projectArrows sampleProject" and
    rest: "activeProjectExists st"
      "map localId (effectiveProjects st) = [''sample-project'', ''p2'']"
    by simp_all
  from twoProjectSession_switch [OF rest] obtain st' where
    "handleProjectSwitch (newProject ''p2'') st = Inr st' \<and> currentProjectIndex st' = 1" ..
  then have
    sw: "handleProjectSwitch (newProject ''p2'') st = Inr st'" "currentProjectIndex st' = 1"
    by simp_all
  from handleProjectSwitch_appends [OF sw(1)] st(3-6)
  have "history st' = [(projectTasks sampleProject, projectArrows sampleProject),
                       (projectTasks sampleProject, projectArrows sampleProject)]"
    "historyIndex st' = 1"
    by (simp_all add: slice0_def)
  moreover have "andThen twoProjectSession (handleProjectSwitch (newProject ''p2'')) = Inr st'"
    by (simp only: st(1) andThen_Inr sw(1))
  ultimately show ?thesis
    by (simp only: st(1-4) sw(2) map_sum.simps id_apply simp_thms)
qed

section \<open>The id of a new arrow\<close>

lemma onEdgeClick_returns:
  assumes "detectAllCycles (arrows st) = Inr cyc"
  shows "onEdgeClick closureTasks edge st =
           Inr (st\<lparr>selectedArrowId := Some (arrow_id edge), selectedTaskId := None,
                   tasks := map (styleTask closureTasks (arrows st) None) closureTasks,
                   arrows := map (styleArrow cyc (Some (arrow_id edge))) (arrows st)\<rparr>)"
  by (simp add: onEdgeClick_def updateStyles_returns [OF assms])

lemma deleteSelected_arrow:
  assumes "selectedTaskId st = None" and "selectedArrowId st = Some sel" and "sel \<noteq> []"
    and "detectAllCycles (filter (\<lambda>a. arrow_id a \<noteq> sel) (arrows st)) = Inr cyc"
    and "activeProjectExists st"
  shows "\<exists>st'. deleteSelected st = Inr st' \<and>
           arrows st' = map (styleArrow cyc None) (filter (\<lambda>a. arrow_id a \<noteq> sel) (arrows st)) \<and>
           selectedTaskId st' = None \<and> selectedArrowId st' = None \<and>
           activeProjectExists st'"
proof -
  let ?A = "filter (\<lambda>a. arrow_id a \<noteq> sel) (arrows st)"
  let ?pending = "st\<lparr>tasks := map (styleTask (tasks st) ?A None) (tasks st),
                      arrows := map (styleArrow cyc None) ?A, selectedArrowId := None\<rparr>"
  from saveToLocalStorage_active [OF assms(5), of ?pending] obtain ps where
    len: "length ps = length (effectiveProjects st)" and
    sv: "saveToLocalStorage st ?pending =
      Inr (?pending\<lparr>projects := ps,
             history := slice0 (history ?pending) (historyIndex st + 1)
                          @ [(tasks st, arrows st)],
             historyIndex := int (length (slice0 (history ?pending) (historyIndex st + 1)))\<rparr>)"
    by blast
  have "deleteSelected st =
      Inr (?pending\<lparr>projects := ps,
             history := slice0 (history ?pending) (historyIndex st + 1)
                          @ [(tasks st, arrows st)],
             historyIndex := int (length (slice0 (history ?pending) (historyIndex st + 1)))\<rparr>)"
    using assms(1,2,3) sv
    by (simp add: deleteSelected_def truthy_def Let_def updateStyles_returns [OF assms(4)])
  moreover have "activeProjectExists (?pending\<lparr>projects := ps,
             history := slice0 (history ?pending) (historyIndex st + 1)
                          @ [(tasks st, arrows st)],
             historyIndex := int (length (slice0 (history ?pending) (historyIndex st + 1)))\<rparr>)"
    by (rule activeProjectExists_saved [OF assms(5) len]) simp_all
  ultimately show ?thesis using assms(1) by simp
qed

lemma onConnect_new:
  assumes "connSource params = Some src" and "connTarget params = Some tgt"
    and "src \<noteq> []" and "tgt \<noteq> []"
    and "\<not> (\<exists>a\<in>set (arrows st). source a = src \<and> target a = tgt)"
    and "detectAllCycles (arrows st @ [newEdge]) = Inr cyc"
    and "newEdge = \<lparr>arrow_id = ''e'' @ decimalDigits (length (arrows st) + 1),
                    source = src, target = tgt, arrow_type = Some (arrowType st),
                    arrow_style = None,
                    markerEnd = Some \<lparr>marker_type = ArrowClosed, color = None\<rparr>\<rparr>"
    and "activeProjectExists st"
  shows "\<exists>st'. onConnect params st = Inr st' \<and>
           arrows st' = map (styleArrow cyc (selectedArrowId st)) (arrows st @ [newEdge])"
proof -
  let ?pending = "st\<lparr>tasks := map (styleTask (tasks st) (arrows st @ [newEdge]) (selectedTaskId st)) (tasks st),
                      arrows := map (styleArrow cyc (selectedArrowId st)) (arrows st @ [newEdge])\<rparr>"
  from saveToLocalStorage_active [OF assms(8), of ?pending] obtain st' where
    sv: "saveToLocalStorage st ?pending = Inr st'"
    by blast
  from saveToLocalStorage_Inr(2) [OF sv] have "arrows st' = arrows ?pending" .
  moreover from assms(5) have "\<not> list_ex (\<lambda>arrow. source arrow = src \<and> target arrow = tgt) (arrows st)"
    by (simp add: list_ex_iff)
  then have "onConnect params st = Inr st'"
    using assms(1-4) sv updateStyles_returns [OF assms(6)] unfolding assms(7)
    by (simp add: onConnect_def Let_def)
  ultimately show ?thesis by simp
qed

lemma decimalDigits_2: "decimalDigits 2 = ''2''" "decimalDigits (Suc (Suc 0)) = ''2''"
  by (simp_all add: decimalDigits.simps)

text \<open>
  C9 fails on the code. In a session on the sample project (arrows \<open>e1\<close> from 1 to 2
  and \<open>e2\<close> from 2 to 3): click \<open>e1\<close>, delete it, then connect 1 to 2 again. The new
  arrow gets the id \<open>e\<close> followed by the number of arrows plus one, that is \<open>e2\<close>,
  the id of the arrow that is still there.
\<close>

theorem onConnect_id_collision:
  "map_sum id (map arrow_id \<circ> arrows)
     (andThen
        (andThen
           (onEdgeClick (tasks (initialEditor [] 0))
              \<lparr>arrow_id = ''e1'', source = ''1'', target = ''2'', arrow_type = Some ''straight'',
               arrow_style = None, markerEnd = None\<rparr>
              (initialEditor [] 0))
           deleteSelected)
        (onConnect \<lparr>connSource = Some ''1'', connTarget = Some ''2''\<rparr>))
   = Inr [''e2'', ''e2'']"
proof -
  let ?e2 = "\<lparr>arrow_id = ''e2'', source = ''2'', target = ''3'', arrow_type = Some ''straight'',
              arrow_style = None, markerEnd = None\<rparr>"
  define st1 where "st1 = (initialEditor [] 0)\<lparr>selectedArrowId := Some ''e1'', selectedTaskId := None,
       tasks := map (styleTask (tasks (initialEditor [] 0)) (arrows (initialEditor [] 0)) None)
                  (tasks (initialEditor [] 0)),
       arrows := map (styleArrow {} (Some ''e1'')) (arrows (initialEditor [] 0))\<rparr>"
  have click: "onEdgeClick (tasks (initialEditor [] 0))
              \<lparr>arrow_id = ''e1'', source = ''1'', target = ''2'', arrow_type = Some ''straight'',
               arrow_style = None, markerEnd = None\<rparr> (initialEditor [] 0) = Inr st1"
    unfolding st1_def
    using onEdgeClick_returns [of "initialEditor [] 0" "{}"] detectAllCycles_sample
    by (simp add: initialEditor_sample)
  have a1: "arrows st1 = map (styleArrow {} (Some ''e1'')) (projectArrows sampleProject)"
    and sel1: "selectedTaskId st1 = None" "selectedArrowId st1 = Some ''e1''"
    by (simp_all add: st1_def initialEditor_sample)
  have act1: "activeProjectExists st1"
    by (rule activeProjectExists_cong [OF initialEditor_active]) (simp_all add: st1_def)
  have f1: "filter (\<lambda>a. arrow_id a \<noteq> ''e1'') (arrows st1) = map (styleArrow {} (Some ''e1'')) [?e2]"
    by (simp add: a1 sampleProject_def)
  have c1: "detectAllCycles (filter (\<lambda>a. arrow_id a \<noteq> ''e1'') (arrows st1)) = Inr {}"
    unfolding f1 by (simp add: detectAllCycles_map) (simp add: detectAllCycles_eval)
  from deleteSelected_arrow [OF sel1 _ c1 act1] obtain st2 where
    del: "deleteSelected st1 = Inr st2" and
    a2: "arrows st2 = map (styleArrow {} None) (map (styleArrow {} (Some ''e1'')) [?e2])" and
    sel2: "selectedArrowId st2 = None" and act2: "activeProjectExists st2"
    unfolding f1 by auto
  define newEdge where "newEdge = \<lparr>arrow_id = ''e'' @ decimalDigits (length (arrows st2) + 1),
                    source = ''1'', target = ''2'', arrow_type = Some (arrowType st2),
                    arrow_style = None,
                    markerEnd = Some \<lparr>marker_type = ArrowClosed, color = None\<rparr>\<rparr>"
  have nid: "arrow_id newEdge = ''e2''" "source newEdge = ''1''" "target newEdge = ''2''"
    by (simp_all add: newEdge_def a2 decimalDigits_2)
  have "detectAllCycles (arrows st2 @ [newEdge])
          = detectAllCycles
              [?e2, \<lparr>arrow_id = ''e2'', source = ''1'', target = ''2'', arrow_type = None,
                     arrow_style = None, markerEnd = None\<rparr>]"
    by (rule detectAllCycles_cong) (simp add: a2 nid)
  then have c2: "detectAllCycles (arrows st2 @ [newEdge]) = Inr {}"
    by (simp add: detectAllCycles_eval)
  have nodup: "\<not> (\<exists>a\<in>set (arrows st2). source a = ''1'' \<and> target a = ''2'')"
    by (simp add: a2)
  from onConnect_new [of "\<lparr>connSource = Some ''1'', connTarget = Some ''2''\<rparr>" "''1''" "''2''"
      st2 newEdge "{}", OF _ _ _ _ nodup c2 newEdge_def act2]
  obtain st3 where
    con: "onConnect \<lparr>connSource = Some ''1'', connTarget = Some ''2''\<rparr> st2 = Inr st3" and
    a3: "arrows st3 = map (styleArrow {} (selectedArrowId st2)) (arrows st2 @ [newEdge])"
    by auto
  have "map arrow_id (arrows st3) = [''e2'', ''e2'']"
    by (simp add: a3 a2 nid)
  then show ?thesis
    by (simp add: click del con)
qed

section \<open>Correctness of detectAllCycles\<close>

subsection \<open>The adjacency object\<close>

lemma successors_iff: "v \<in> set (successors arrowList u) \<longleftrightarrow> (u, v) \<in> edges arrowList"
  by (auto simp: successors_def edges_def)

lemma successors_append:
  "successors (xs @ ys) u = successors xs u @ successors ys u"
  by (simp add: successors_def)

lemma successors_nonsource: "u \<notin> source ` set xs \<Longrightarrow> successors xs u = []"
  by (induction xs) (auto simp: successors_def)

lemma map_of_push:
  "map_of (map (\<lambda>(k, v). if k = s then (k, v @ [t]) else (k, v)) g) u
     = (if u = s then map_option (\<lambda>v. v @ [t]) (map_of g u) else map_of g u)"
  by (induction g) auto

lemma addArrow_represents:
  assumes "represents g pre" and "source a \<notin> set objectPrototypeKeys"
  shows "\<exists>g'. addArrow g a = Inr g' \<and> represents g' (pre @ [a])"
proof (cases "source a \<in> source ` set pre")
  case True
  with assms(1) have m: "map_of g (source a) = Some (successors pre (source a))"
    by (simp add: represents_def)
  let ?g' = "map (\<lambda>(k, v). if k = source a then (k, v @ [target a]) else (k, v)) g"
  from m have "addArrow g a = Inr ?g'"
    by (simp add: addArrow_def graph_get_def)
  moreover have "represents ?g' (pre @ [a])"
    using assms(1) True
    by (auto simp: represents_def map_of_push successors_def)
  ultimately show ?thesis by blast
next
  case False
  with assms(1) have m: "map_of g (source a) = None"
    by (simp add: represents_def)
  let ?g' = "g @ [(source a, [target a])]"
  from m assms(2) have "addArrow g a = Inr ?g'"
    by (simp add: addArrow_def graph_get_def)
  moreover have "represents ?g' (pre @ [a])"
    unfolding represents_def
  proof
    fix u
    show "map_of ?g' u = (if u \<in> source ` set (pre @ [a])
                           then Some (successors (pre @ [a]) u) else None)"
    proof (cases "u = source a")
      case True
      from False have "successors pre (source a) = []"
        by (rule successors_nonsource)
      with True m show ?thesis
        by (simp add: map_add_def successors_append) (simp add: successors_def)
    next
      case neq: False
      then have "successors [a] u = []"
        by (simp add: successors_def)
      with neq assms(1) show ?thesis
        by (simp add: represents_def map_add_def successors_append split: option.splits)
    qed
  qed
  ultimately show ?thesis by blast
qed

lemma represents_neighborsOf:
  assumes "represents g arrowList" and "u \<notin> set objectPrototypeKeys"
  shows "neighborsOf g u = Own (successors arrowList u)"
proof (cases "u \<in> source ` set arrowList")
  case True
  with assms(1) show ?thesis
    by (simp add: represents_def neighborsOf_def graph_get_def)
next
  case False
  then have "successors arrowList u = []"
    by (rule successors_nonsource)
  with False assms show ?thesis
    by (simp add: represents_def neighborsOf_def graph_get_def)
qed

lemma represents_keys:
  assumes "represents g arrowList"
  shows "fst ` set g = source ` set arrowList"
proof -
  have "u \<in> fst ` set g \<longleftrightarrow> u \<in> source ` set arrowList" for u
  proof -
    have "u \<notin> fst ` set g \<longleftrightarrow> map_of g u = None"
      by (simp add: map_of_eq_None_iff)
    also from assms have "\<dots> \<longleftrightarrow> u \<notin> source ` set arrowList"
      by (simp add: represents_def)
    finally show ?thesis by blast
  qed
  then show ?thesis by blast
qed

lemma set_objectKeys: "set (objectKeys g) = fst ` set g"
  by (auto simp: objectKeys_def Let_def)

text \<open>What a successful construction of the adjacency object tells.\<close>

lemma addArrow_Inr:
  assumes "represents g pre" and "plainSources pre" and "addArrow g a = Inr g'"
  shows "represents g' (pre @ [a]) \<and> plainSources (pre @ [a])"
proof -
  have plain: "source a \<notin> set objectPrototypeKeys"
  proof (cases "source a \<in> source ` set pre")
    case True
    with assms(2) show ?thesis
      by (auto simp: plainSources_def)
  next
    case False
    with assms(1) have "map_of g (source a) = None"
      by (simp add: represents_def)
    with assms(3) show ?thesis
      by (auto simp: addArrow_def graph_get_def split: if_splits)
  qed
  from addArrow_represents [OF assms(1) plain] assms(3) have "represents g' (pre @ [a])"
    by auto
  with plain assms(2) show ?thesis
    by (simp add: plainSources_def)
qed

lemma buildGraph_Inr:
  assumes "represents g pre" and "plainSources pre" and "buildGraph rest g = Inr g'"
  shows "represents g' (pre @ rest) \<and> plainSources (pre @ rest)"
  using assms
proof (induction rest arbitrary: g pre)
  case Nil
  then show ?case by simp
next
  case (Cons a rest)
  from Cons.prems(3) obtain g1 where g1: "addArrow g a = Inr g1" "buildGraph rest g1 = Inr g'"
    by (auto split: sum.splits)
  from addArrow_Inr [OF Cons.prems(1,2) g1(1)]
  have "represents g1 (pre @ [a])" "plainSources (pre @ [a])"
    by simp_all
  from Cons.IH [OF this g1(2)] show ?case by simp
qed

lemma neighborsOf_Own:
  assumes "represents g arrowList" and "plainSources arrowList"
    and "neighborsOf g u = Own ns"
  shows "ns = successors arrowList u"
proof (cases "u \<in> set objectPrototypeKeys")
  case True
  with assms(2) have "u \<notin> source ` set arrowList"
    by (auto simp: plainSources_def)
  with assms(1) have "map_of g u = None"
    by (simp add: represents_def)
  with True assms(3) show ?thesis
    by (simp add: neighborsOf_def graph_get_def)
next
  case False
  from represents_neighborsOf [OF assms(1) False] assms(3) show ?thesis
    by simp
qed

subsection \<open>The invariant of the traversal\<close>

lemma cycleArrows_backEdge: "cycleArrows st \<subseteq> cycleArrows (backEdge arrowList u v st)"
  by (auto simp: backEdge_def split: option.splits)

lemma backEdge_records:
  assumes "truthyArrowIds arrowList" and "(u, v) \<in> edges arrowList"
  shows "cycleArrows (backEdge arrowList u v st) \<noteq> {}"
proof -
  from assms(2) obtain a where "a \<in> set arrowList" "source a = u" "target a = v"
    by (auto simp: edges_def)
  then have "find (\<lambda>e. source e = u \<and> target e = v) arrowList \<noteq> None"
    by (auto simp: find_None_iff)
  then obtain e where e: "find (\<lambda>e. source e = u \<and> target e = v) arrowList = Some e"
    by blast
  then have "e \<in> set arrowList"
    by (auto simp: find_Some_iff)
  with assms(1) have "arrow_id e \<noteq> []"
    by (simp add: truthyArrowIds_def)
  with e show ?thesis
    by (simp add: backEdge_def)
qed

lemma finished_mono:
  "visited st \<subseteq> visited st' \<Longrightarrow> recStack st' = recStack st \<Longrightarrow> finished st \<subseteq> finished st'"
  by (auto simp: finished_def)

lemma finished_backEdge [simp]: "finished (backEdge arrowList u v st) = finished st"
  by (simp add: finished_def)

lemma dfsInvariant_push:
  assumes "dfsInvariant arrowList st" and "u \<notin> visited st" and "recStack st \<subseteq> visited st"
  shows "dfsInvariant arrowList
           (st\<lparr>visited := insert u (visited st), recStack := insert u (recStack st)\<rparr>)"
proof -
  have "finished (st\<lparr>visited := insert u (visited st), recStack := insert u (recStack st)\<rparr>)
          = finished st"
    using assms(2,3) by (auto simp: finished_def)
  with assms(1) show ?thesis
    by (simp add: dfsInvariant_def)
qed

lemma dfsInvariant_backEdge:
  assumes "dfsInvariant arrowList st" and "(v, u) \<in> (edges arrowList)\<^sup>*"
    and "(u, v) \<in> edges arrowList"
  shows "dfsInvariant arrowList (backEdge arrowList u v st)"
proof -
  from assms(2,3) have "(v, v) \<in> (edges arrowList)\<^sup>+"
    by (rule rtrancl_into_trancl1)
  then have "\<not> acyclic (edges arrowList)"
    by (auto simp: acyclic_def)
  moreover have "truthyArrowIds arrowList \<Longrightarrow> cycleArrows (backEdge arrowList u v st) \<noteq> {}"
    by (rule backEdge_records [OF _ assms(3)])
  ultimately show ?thesis
    by (auto simp: dfsInvariant_def)
qed

lemma closed_rtrancl:
  assumes "\<forall>b\<in>S. \<forall>v. (b, v) \<in> r \<longrightarrow> v \<in> S" and "(x, y) \<in> r\<^sup>*" and "x \<in> S"
  shows "y \<in> S"
  using assms(2,3,1) by (induction rule: rtrancl_induct) blast+

lemma dfsInvariant_pop:
  assumes inv: "dfsInvariant arrowList st" and u: "u \<in> recStack st" "u \<in> visited st"
    and succ: "truthyArrowIds arrowList \<and> cycleArrows st = {} \<longrightarrow>
                 set (successors arrowList u) \<subseteq> finished st"
  shows "dfsInvariant arrowList (st\<lparr>recStack := recStack st - {u}\<rparr>)"
proof -
  let ?st' = "st\<lparr>recStack := recStack st - {u}\<rparr>"
  let ?E = "edges arrowList"
  have fin: "finished ?st' = insert u (finished st)"
    using u by (auto simp: finished_def)
  have "(\<forall>b\<in>finished ?st'. \<forall>v. (b, v) \<in> ?E \<longrightarrow> v \<in> finished ?st') \<and>
        (\<forall>b\<in>finished ?st'. (b, b) \<notin> ?E\<^sup>+)"
    if t: "truthyArrowIds arrowList" and c: "cycleArrows st = {}"
  proof -
    from inv t c have closed: "\<forall>b\<in>finished st. \<forall>v. (b, v) \<in> ?E \<longrightarrow> v \<in> finished st"
      and acyc: "\<forall>b\<in>finished st. (b, b) \<notin> ?E\<^sup>+"
      by (simp_all add: dfsInvariant_def)
    from succ t c have su: "\<forall>v. (u, v) \<in> ?E \<longrightarrow> v \<in> finished st"
      by (auto simp: successors_iff)
    have "u \<notin> finished st"
      using u(1) by (simp add: finished_def)
    have "(u, u) \<notin> ?E\<^sup>+"
    proof
      assume "(u, u) \<in> ?E\<^sup>+"
      then obtain v where "(u, v) \<in> ?E" "(v, u) \<in> ?E\<^sup>*"
        by (auto dest: tranclD)
      with su have "v \<in> finished st" by blast
      from closed_rtrancl [OF closed \<open>(v, u) \<in> ?E\<^sup>*\<close> this] \<open>u \<notin> finished st\<close>
      show False by blast
    qed
    with closed acyc su show ?thesis
      unfolding fin by blast
  qed
  with inv show ?thesis
    by (simp add: dfsInvariant_def)
qed

subsection \<open>The traversal\<close>

text \<open>
  What holds after a call of \<^verbatim>\<open>dfs\<close>, and after its loop over the neighbours, that
  returns: the visited set has grown and holds the task, the recursion stack is as
  before, recorded arrows are kept, and the invariant holds again. After the loop, while
  nothing is recorded, every neighbour is finished.
\<close>

lemma dfs_partial:
  shows "\<lbrakk>represents g arrowList; plainSources arrowList;
          dfs arrowList g u st = Inr st';
          u \<notin> visited st; recStack st \<subseteq> visited st;
          \<forall>w\<in>recStack st. (w, u) \<in> (edges arrowList)\<^sup>*; dfsInvariant arrowList st\<rbrakk>
         \<Longrightarrow> visited st \<subseteq> visited st' \<and> u \<in> visited st' \<and> recStack st' = recStack st \<and>
             cycleArrows st \<subseteq> cycleArrows st' \<and> dfsInvariant arrowList st'"
    and "\<lbrakk>represents g arrowList; plainSources arrowList;
          forNeighbors arrowList g u ns st = Inr st';
          set ns \<subseteq> set (successors arrowList u); u \<in> recStack st;
          recStack st \<subseteq> visited st;
          \<forall>w\<in>recStack st. (w, u) \<in> (edges arrowList)\<^sup>*; dfsInvariant arrowList st\<rbrakk>
         \<Longrightarrow> visited st \<subseteq> visited st' \<and> recStack st' = recStack st \<and>
             cycleArrows st \<subseteq> cycleArrows st' \<and> dfsInvariant arrowList st' \<and>
             (truthyArrowIds arrowList \<and> cycleArrows st' = {} \<longrightarrow> set ns \<subseteq> finished st')"
proof (induction arrowList g u st and arrowList g u ns st arbitrary: st' and st'
    rule: dfs_forNeighbors.induct)
  case (1 arrowList graph taskId st)
  let ?st1 = "st\<lparr>visited := insert taskId (visited st),
                   recStack := insert taskId (recStack st)\<rparr>"
  from "1.prems"(3) obtain ns st2 where
    nb: "neighborsOf graph taskId = Own ns" and
    run: "forNeighbors arrowList graph taskId ns ?st1 = Inr st2" and
    st': "st' = st2\<lparr>recStack := recStack st2 - {taskId}\<rparr>"
    by (auto simp: dfs.simps [of arrowList graph taskId st] split: property.splits sum.splits)
  from neighborsOf_Own [OF "1.prems"(1,2) nb] have ns: "ns = successors arrowList taskId" .
  have "visited ?st1 \<subseteq> visited st2 \<and> recStack st2 = recStack ?st1 \<and>
        cycleArrows ?st1 \<subseteq> cycleArrows st2 \<and> dfsInvariant arrowList st2 \<and>
        (truthyArrowIds arrowList \<and> cycleArrows st2 = {} \<longrightarrow> set ns \<subseteq> finished st2)"
  proof (rule "1.IH" [OF nb "1.prems"(1,2) run])
    show "set ns \<subseteq> set (successors arrowList taskId)" by (simp add: ns)
    show "taskId \<in> recStack ?st1" by simp
    show "recStack ?st1 \<subseteq> visited ?st1" using "1.prems"(5) by auto
    show "\<forall>w\<in>recStack ?st1. (w, taskId) \<in> (edges arrowList)\<^sup>*"
      using "1.prems"(6) by simp
    show "dfsInvariant arrowList ?st1"
      by (rule dfsInvariant_push [OF "1.prems"(7,4,5)])
  qed
  then have
    vis: "visited ?st1 \<subseteq> visited st2" and rs: "recStack st2 = recStack ?st1" and
    cyc: "cycleArrows ?st1 \<subseteq> cycleArrows st2" and inv: "dfsInvariant arrowList st2" and
    fin: "truthyArrowIds arrowList \<and> cycleArrows st2 = {} \<longrightarrow>
            set (successors arrowList taskId) \<subseteq> finished st2"
    by (simp_all add: ns)
  have "visited st \<subseteq> visited st'" "taskId \<in> visited st'"
    using vis by (auto simp: st')
  moreover have "recStack st' = recStack st"
    using rs "1.prems"(4,5) by (auto simp: st')
  moreover have "cycleArrows st \<subseteq> cycleArrows st'"
    using cyc by (simp add: st')
  moreover have "dfsInvariant arrowList st'"
    unfolding st'
  proof (rule dfsInvariant_pop [OF inv _ _ fin])
    show "taskId \<in> recStack st2" using rs by simp
    show "taskId \<in> visited st2" using vis by auto
  qed
  ultimately show ?case by blast
next
  case (2 arrowList graph taskId st)
  then show ?case by simp
next
  case (3 arrowList graph taskId neighbor rest st)
  from "3.prems"(4) have edge: "(taskId, neighbor) \<in> edges arrowList"
    and rest: "set rest \<subseteq> set (successors arrowList taskId)"
    by (simp_all add: successors_iff)
  have step: "visited st \<subseteq> visited st' \<and> recStack st' = recStack st \<and>
        cycleArrows st \<subseteq> cycleArrows st' \<and> dfsInvariant arrowList st' \<and>
        (truthyArrowIds arrowList \<and> cycleArrows st' = {} \<longrightarrow>
           set (neighbor # rest) \<subseteq> finished st')"
    if run: "forNeighbors arrowList graph taskId rest s1 = Inr st'"
      and ih: "\<And>st'. \<lbrakk>represents graph arrowList; plainSources arrowList;
          forNeighbors arrowList graph taskId rest s1 = Inr st';
          set rest \<subseteq> set (successors arrowList taskId); taskId \<in> recStack s1;
          recStack s1 \<subseteq> visited s1;
          \<forall>w\<in>recStack s1. (w, taskId) \<in> (edges arrowList)\<^sup>*; dfsInvariant arrowList s1\<rbrakk>
         \<Longrightarrow> visited s1 \<subseteq> visited st' \<and> recStack st' = recStack s1 \<and>
             cycleArrows s1 \<subseteq> cycleArrows st' \<and> dfsInvariant arrowList st' \<and>
             (truthyArrowIds arrowList \<and> cycleArrows st' = {} \<longrightarrow> set rest \<subseteq> finished st')"
      and v1: "visited st \<subseteq> visited s1" and r1: "recStack s1 = recStack st"
      and c1: "cycleArrows st \<subseteq> cycleArrows s1" and i1: "dfsInvariant arrowList s1"
      and f1: "truthyArrowIds arrowList \<and> cycleArrows s1 = {} \<longrightarrow> neighbor \<in> finished s1"
    for s1
  proof -
    have "visited s1 \<subseteq> visited st' \<and> recStack st' = recStack s1 \<and>
          cycleArrows s1 \<subseteq> cycleArrows st' \<and> dfsInvariant arrowList st' \<and>
          (truthyArrowIds arrowList \<and> cycleArrows st' = {} \<longrightarrow> set rest \<subseteq> finished st')"
    proof (rule ih [OF "3.prems"(1,2) run rest])
      show "taskId \<in> recStack s1" using "3.prems"(5) r1 by simp
      show "recStack s1 \<subseteq> visited s1" using "3.prems"(6) r1 v1 by auto
      show "\<forall>w\<in>recStack s1. (w, taskId) \<in> (edges arrowList)\<^sup>*"
        using "3.prems"(7) r1 by simp
      show "dfsInvariant arrowList s1" by (rule i1)
    qed
    then have
      vis: "visited s1 \<subseteq> visited st'" and rs: "recStack st' = recStack s1" and
      cyc: "cycleArrows s1 \<subseteq> cycleArrows st'" and inv: "dfsInvariant arrowList st'" and
      fin: "truthyArrowIds arrowList \<and> cycleArrows st' = {} \<longrightarrow> set rest \<subseteq> finished st'"
      by simp_all
    have "neighbor \<in> finished st'" if "truthyArrowIds arrowList" "cycleArrows st' = {}"
    proof -
      from that cyc f1 have "neighbor \<in> finished s1" by auto
      with finished_mono [OF vis rs] show ?thesis by blast
    qed
    with vis rs cyc inv fin v1 r1 c1 show ?thesis
      by auto
  qed
  show ?case
  proof (cases "neighbor \<in> visited st")
    case False
    with "3.prems"(3) obtain s1 where
      d: "dfs arrowList graph neighbor st = Inr s1" and
      run: "forNeighbors arrowList graph taskId rest s1 = Inr st'"
      by (auto split: sum.splits)
    have "visited st \<subseteq> visited s1 \<and> neighbor \<in> visited s1 \<and> recStack s1 = recStack st \<and>
          cycleArrows st \<subseteq> cycleArrows s1 \<and> dfsInvariant arrowList s1"
    proof (rule "3.IH"(1) [OF False "3.prems"(1,2) d False "3.prems"(6) _ "3.prems"(8)])
      show "\<forall>w\<in>recStack st. (w, neighbor) \<in> (edges arrowList)\<^sup>*"
        using "3.prems"(7) edge by (auto intro: rtrancl_into_rtrancl)
    qed
    then have v1: "visited st \<subseteq> visited s1" and
      n1: "neighbor \<in> visited s1" and r1: "recStack s1 = recStack st" and
      c1: "cycleArrows st \<subseteq> cycleArrows s1" and i1: "dfsInvariant arrowList s1"
      by simp_all
    have "neighbor \<in> finished s1"
      using n1 r1 False "3.prems"(6) by (auto simp: finished_def)
    then show ?thesis
      by (intro step [of s1, OF run "3.IH"(2) [OF False d] v1 r1 c1 i1]) simp_all
  next
    case True
    show ?thesis
    proof (cases "neighbor \<in> recStack st")
      case onStack: True
      let ?s1 = "backEdge arrowList taskId neighbor st"
      from True onStack "3.prems"(3) have
        run: "forNeighbors arrowList graph taskId rest ?s1 = Inr st'"
        by simp
      from "3.prems"(7) onStack have reach: "(neighbor, taskId) \<in> (edges arrowList)\<^sup>*"
        by blast
      have i1: "dfsInvariant arrowList ?s1"
        by (rule dfsInvariant_backEdge [OF "3.prems"(8) reach edge])
      have f1: "truthyArrowIds arrowList \<and> cycleArrows ?s1 = {} \<longrightarrow> neighbor \<in> finished ?s1"
        using backEdge_records [OF _ edge, of st] by blast
      from True onStack show ?thesis
        by (intro step [of ?s1, OF run "3.IH"(3) [OF _ onStack] _ _ cycleArrows_backEdge i1 f1])
          simp_all
    next
      case offStack: False
      from True offStack "3.prems"(3) have
        run: "forNeighbors arrowList graph taskId rest st = Inr st'"
        by simp
      from True offStack have "neighbor \<in> finished st"
        by (simp add: finished_def)
      with True offStack show ?thesis
        by (intro step [of st, OF run "3.IH"(4) [OF _ offStack] _ _ _ "3.prems"(8)]) simp_all
    qed
  qed
qed

lemma forKeys_partial:
  assumes "represents g arrowList" and "plainSources arrowList"
    and "forKeys arrowList g ks st = Inr st'" and "recStack st = {}"
    and "dfsInvariant arrowList st"
  shows "visited st \<union> set ks \<subseteq> visited st' \<and> recStack st' = {} \<and> dfsInvariant arrowList st'"
  using assms(3,4,5)
proof (induction ks arbitrary: st)
  case Nil
  then show ?case by simp
next
  case (Cons k ks)
  show ?case
  proof (cases "k \<in> visited st")
    case True
    with Cons.prems(1) have "forKeys arrowList g ks st = Inr st'" by simp
    from Cons.IH [OF this Cons.prems(2,3)] True show ?thesis by auto
  next
    case False
    with Cons.prems(1) obtain s1 where
      d: "dfs arrowList g k st = Inr s1" and run: "forKeys arrowList g ks s1 = Inr st'"
      by (auto split: sum.splits)
    from dfs_partial(1) [OF assms(1,2) d False _ _ Cons.prems(3)] Cons.prems(2)
    have s1: "visited st \<subseteq> visited s1" "k \<in> visited s1" "recStack s1 = {}"
      "dfsInvariant arrowList s1"
      by auto
    from Cons.IH [OF run s1(3,4)] s1(1,2) show ?thesis by auto
  qed
qed

lemma detectAllCycles_partial:
  assumes "detectAllCycles arrowList = Inr cyc"
  shows "(cyc \<noteq> {} \<longrightarrow> \<not> acyclic (edges arrowList)) \<and>
         (truthyArrowIds arrowList \<and> cyc = {} \<longrightarrow> acyclic (edges arrowList))"
proof -
  let ?s0 = "\<lparr>visited = {}, recStack = {}, cycleArrows = {}\<rparr>"
  from assms obtain g st' where
    g: "buildGraph arrowList [] = Inr g" and
    run: "forKeys arrowList g (objectKeys g) ?s0 = Inr st'" and
    cyc: "cyc = cycleArrows st'"
    by (auto simp: detectAllCycles_def split: sum.splits)
  have "represents [] []" "plainSources []"
    by (simp_all add: represents_def plainSources_def)
  from buildGraph_Inr [OF this g] have rep: "represents g arrowList"
    and plain: "plainSources arrowList"
    by simp_all
  have keys: "set (objectKeys g) = source ` set arrowList"
    by (simp add: set_objectKeys represents_keys [OF rep])
  have "dfsInvariant arrowList ?s0"
    by (simp add: dfsInvariant_def finished_def)
  from forKeys_partial [OF rep plain run _ this] keys have
    vis: "source ` set arrowList \<subseteq> visited st'" and rs: "recStack st' = {}" and
    inv: "dfsInvariant arrowList st'"
    by auto
  have "acyclic (edges arrowList)" if t: "truthyArrowIds arrowList" and c: "cycleArrows st' = {}"
    unfolding acyclic_def
  proof (intro allI notI)
    fix x assume "(x, x) \<in> (edges arrowList)\<^sup>+"
    moreover from this obtain y where "(x, y) \<in> edges arrowList"
      by (auto dest: tranclD)
    then have "x \<in> source ` set arrowList"
      by (auto simp: edges_def)
    with vis rs have "x \<in> finished st'"
      by (auto simp: finished_def)
    ultimately show False
      using inv t c by (auto simp: dfsInvariant_def)
  qed
  moreover from inv have "cycleArrows st' \<noteq> {} \<longrightarrow> \<not> acyclic (edges arrowList)"
    by (simp add: dfsInvariant_def)
  ultimately show ?thesis
    unfolding cyc by blast
qed

text \<open>
  C2, as the code has it. When the arrow ids are truthy (non-empty) and the call of
  \<^verbatim>\<open>detectAllCycles\<close> returns a set, that set is empty exactly when the directed graph
  of the (source, target) pairs is acyclic. Nothing is said of the calls that throw: a
  TypeError on a task id that names a property of \<^verbatim>\<open>Object.prototype\<close>, a RangeError
  when the recursion outgrows the call stack of the engine.
\<close>

theorem detectAllCycles_empty_iff_acyclic:
  assumes "truthyArrowIds arrowList" and "detectAllCycles arrowList = Inr cyc"
  shows "cyc = {} \<longleftrightarrow> acyclic (edges arrowList)"
  using detectAllCycles_partial [OF assms(2)] assms(1) by blast

lemma detectAllCycles_three:
  "detectAllCycles
     [\<lparr>arrow_id = ''e1'', source = ''1'', target = ''2'', arrow_type = None,
       arrow_style = None, markerEnd = None\<rparr>,
      \<lparr>arrow_id = ''e2'', source = ''2'', target = ''3'', arrow_type = None,
       arrow_style = None, markerEnd = None\<rparr>,
      \<lparr>arrow_id = ''e3'', source = ''3'', target = ''1'', arrow_type = None,
       arrow_style = None, markerEnd = None\<rparr>] = Inr {''e3''}"
  by (simp add: detectAllCycles_eval)

theorem detectAllCycles_empty_iff_acyclic_witness:
  "truthyArrowIds (projectArrows sampleProject) \<and>
   detectAllCycles (projectArrows sampleProject) = Inr {} \<and>
   acyclic (edges (projectArrows sampleProject)) \<and>
   truthyArrowIds
     [\<lparr>arrow_id = ''e1'', source = ''1'', target = ''2'', arrow_type = None,
       arrow_style = None, markerEnd = None\<rparr>,
      \<lparr>arrow_id = ''e2'', source = ''2'', target = ''3'', arrow_type = None,
       arrow_style = None, markerEnd = None\<rparr>,
      \<lparr>arrow_id = ''e3'', source = ''3'', target = ''1'', arrow_type = None,
       arrow_style = None, markerEnd = None\<rparr>] \<and>
   detectAllCycles
     [\<lparr>arrow_id = ''e1'', source = ''1'', target = ''2'', arrow_type = None,
       arrow_style = None, markerEnd = None\<rparr>,
      \<lparr>arrow_id = ''e2'', source = ''2'', target = ''3'', arrow_type = None,
       arrow_style = None, markerEnd = None\<rparr>,
      \<lparr>arrow_id = ''e3'', source = ''3'', target = ''1'', arrow_type = None,
       arrow_style = None, markerEnd = None\<rparr>] = Inr {''e3''} \<and>
   \<not> acyclic (edges
     [\<lparr>arrow_id = ''e1'', source = ''1'', target = ''2'', arrow_type = None,
       arrow_style = None, markerEnd = None\<rparr>,
      \<lparr>arrow_id = ''e2'', source = ''2'', target = ''3'', arrow_type = None,
       arrow_style = None, markerEnd = None\<rparr>,
      \<lparr>arrow_id = ''e3'', source = ''3'', target = ''1'', arrow_type = None,
       arrow_style = None, markerEnd = None\<rparr>])"
proof -
  let ?three = "[\<lparr>arrow_id = ''e1'', source = ''1'', target = ''2'', arrow_type = None,
       arrow_style = None, markerEnd = None\<rparr>,
      \<lparr>arrow_id = ''e2'', source = ''2'', target = ''3'', arrow_type = None,
       arrow_style = None, markerEnd = None\<rparr>,
      \<lparr>arrow_id = ''e3'', source = ''3'', target = ''1'', arrow_type = None,
       arrow_style = None, markerEnd = None\<rparr>]"
  have h: "truthyArrowIds (projectArrows sampleProject)" "truthyArrowIds ?three"
    by (simp_all add: truthyArrowIds_def sampleProject_def)
  from detectAllCycles_empty_iff_acyclic [OF h(1) detectAllCycles_sample]
  have "acyclic (edges (projectArrows sampleProject))" by simp
  moreover from detectAllCycles_empty_iff_acyclic [OF h(2) detectAllCycles_three]
  have "\<not> acyclic (edges ?three)" by simp
  ultimately show ?thesis
    using h detectAllCycles_sample detectAllCycles_three by simp
qed

text \<open>
  Without the condition on the ids the equivalence does not hold: a self-loop whose id
  is the empty string is a cycle, and the result is empty, since \<^verbatim>\<open>if (arrowId)\<close>
  drops the falsy id.
\<close>

theorem detectAllCycles_empty_id_self_loop:
  "detectAllCycles [\<lparr>arrow_id = [], source = ''1'', target = ''1'', arrow_type = None,
                      arrow_style = None, markerEnd = None\<rparr>] = Inr {}
   \<and> \<not> acyclic (edges [\<lparr>arrow_id = [], source = ''1'', target = ''1'', arrow_type = None,
                          arrow_style = None, markerEnd = None\<rparr>])"
  by (simp add: detectAllCycles_eval edges_def)

text \<open>A task id that names a property of \<^verbatim>\<open>Object.prototype\<close> makes the call throw.\<close>

lemma detectAllCycles_prototype_key:
  "detectAllCycles [\<lparr>arrow_id = ''e1'', source = ''constructor'', target = ''1'',
                      arrow_type = None, arrow_style = None, markerEnd = None\<rparr>] = Inl TypeError"
  "detectAllCycles [\<lparr>arrow_id = ''e1'', source = ''1'', target = ''toString'',
                      arrow_type = None, arrow_style = None, markerEnd = None\<rparr>] = Inl TypeError"
  by (simp_all add: detectAllCycles_eval)




end
